theory Spec2Isabelle
  imports Main "HOL-Library.Word"
begin

section \<open>Python string operations used by the downloader\<close>

text \<open>
  Python text is modelled as \<^typ>\<open>string\<close>; a character is a code point below 256.
  \<open>str.rstrip('/')\<close>, \<open>str.lstrip('/')\<close> and \<open>str.strip('/')\<close> remove every
  leading or trailing occurrence of the given character.
\<close>

definition lstrip_chr :: "char \<Rightarrow> string \<Rightarrow> string" where
  "lstrip_chr c s = dropWhile (\<lambda>x. x = c) s"

definition rstrip_chr :: "char \<Rightarrow> string \<Rightarrow> string" where
  "rstrip_chr c s = rev (dropWhile (\<lambda>x. x = c) (rev s))"

definition strip_chr :: "char \<Rightarrow> string \<Rightarrow> string" where
  "strip_chr c s = rstrip_chr c (lstrip_chr c s)"

text \<open>\<open>sep.join(parts)\<close>.\<close>

fun join :: "string \<Rightarrow> string list \<Rightarrow> string" where
  "join sep [] = []"
| "join sep [p] = p"
| "join sep (p # q # ps) = p @ sep @ join sep (q # ps)"

text \<open>
  \<open>str.strip()\<close> without argument removes leading and trailing whitespace: the code
  points for which \<open>str.isspace\<close> holds (below 256: 9 to 13, 28 to 32, 133 and 160).
\<close>

definition py_isspace :: "char \<Rightarrow> bool" where
  "py_isspace c = (of_char c \<in> {9, 10, 11, 12, 13, 28, 29, 30, 31, 32, 133, 160 :: nat})"

definition py_strip :: "string \<Rightarrow> string" where
  "py_strip s = rev (dropWhile py_isspace (rev (dropWhile py_isspace s)))"

text \<open>
  \<open>str.lower()\<close>: the ASCII capitals and the capitals of Latin-1 (192 to 222 except the
  multiplication sign 215) move up by 32; every other code point below 256 stays.
\<close>

definition lower_chr :: "char \<Rightarrow> char" where
  "lower_chr c =
     (let n = (of_char c :: nat)
      in if (65 \<le> n \<and> n \<le> 90) \<or> (192 \<le> n \<and> n \<le> 222 \<and> n \<noteq> 215)
         then char_of (n + 32) else c)"

definition lower :: "string \<Rightarrow> string" where
  "lower s = map lower_chr s"

text \<open>\<open>s.startswith(p)\<close>.\<close>

definition startswith :: "string \<Rightarrow> string \<Rightarrow> bool" where
  "startswith s p = (take (length p) s = p)"

text \<open>The \<open>%d\<close> conversion of an integer: decimal digits, with a minus sign below zero.\<close>

definition digit_chr :: "nat \<Rightarrow> char" where
  "digit_chr d = char_of (48 + d)"

fun str_nat :: "nat \<Rightarrow> string" where
  "str_nat n = (if n < 10 then [digit_chr n] else str_nat (n div 10) @ [digit_chr (n mod 10)])"

declare str_nat.simps [simp del]

definition str_int :: "int \<Rightarrow> string" where
  "str_int i = (if i < 0 then CHR ''-'' # str_nat (nat (- i)) else str_nat (nat i))"

section \<open>Errors\<close>

text \<open>
  Every exception the module raises or lets through is a value. \<open>DownloadError\<close> is the
  module's own; the others are Python's. \<open>socket.error\<close> and \<open>IOError\<close> are both
  names of \<open>OSError\<close>, which carries its text. \<open>ReError\<close> is \<open>re.error\<close>.
\<close>

datatype error =
    DownloadError string
  | OSError string
  | ValueError string
  | AttributeError
  | TypeError
  | ZeroDivisionError
  | ReError

section \<open>Locator classification\<close>

text \<open>
  \<open>IsLocal\<close> is \<open>re.match(r'[A-Z,a-z]\:', string)\<close>: the first character is in the
  class (a letter or the comma the class also lists) and the second is a colon.
  \<open>IsRemote\<close> is \<open>re.match(r'http(s)?:', string, re.I)\<close>: the string starts with
  \<open>http:\<close> or \<open>https:\<close>, in any letter case.
\<close>

definition ascii_upper :: "char \<Rightarrow> bool" where
  "ascii_upper c = (65 \<le> (of_char c :: nat) \<and> (of_char c :: nat) \<le> 90)"

definition ascii_lower :: "char \<Rightarrow> bool" where
  "ascii_lower c = (97 \<le> (of_char c :: nat) \<and> (of_char c :: nat) \<le> 122)"

fun IsLocal :: "string \<Rightarrow> bool" where
  "IsLocal (a # b # rest) = ((ascii_upper a \<or> a = CHR '','' \<or> ascii_lower a) \<and> b = CHR '':'')"
| "IsLocal s = False"

definition IsRemote :: "string \<Rightarrow> bool" where
  "IsRemote s = (lower (take 5 s) = ''http:'' \<or> lower (take 6 s) = ''https:'')"

section \<open>Path compilation and shorthand expansion\<close>

text \<open>
  The build information is a collaborator; the module reads three values from it.
  \<open>BinaryPath\<close> holds \<open>str(build_info.BinaryPath())\<close>.
\<close>

record build_info =
  ReleasePath :: string
  ActiveConfigPath :: "string list"
  BinaryPath :: string

text \<open>
  \<open>PathCompile(build_info, file_name=None, base=None)\<close>. An argument that is \<open>None\<close> or
  empty is falsy, and so is an empty sub-path list.
\<close>

definition truthy :: "string option \<Rightarrow> bool" where
  "truthy x = (case x of None \<Rightarrow> False | Some s \<Rightarrow> s \<noteq> [])"

definition PathCompile :: "build_info \<Rightarrow> string option \<Rightarrow> string option \<Rightarrow> string" where
  "PathCompile bi file_name base =
     (let path = (case base of
                    None \<Rightarrow> ReleasePath bi
                  | Some b \<Rightarrow> if b = [] then ReleasePath bi else b);
          path = rstrip_chr CHR ''/'' path;
          sub_path = ActiveConfigPath bi;
          path = (if sub_path \<noteq> []
                  then (path @ ''/'') @ strip_chr CHR ''/'' (join ''/'' sub_path)
                  else path);
          path = (case file_name of
                    None \<Rightarrow> path
                  | Some f \<Rightarrow> if f = [] then path else (path @ ''/'') @ lstrip_chr CHR ''/'' f)
      in path)"

text \<open>
  \<open>Transform\<close> applies four substitutions in sequence.
  \<open>re.sub(r'(?<!\\)c', repl, s)\<close> replaces every \<open>c\<close> whose predecessor in \<open>s\<close> is not a
  backslash; the flag says whether the character before the rest of the string is a
  backslash (false at the start).
  \<open>re.sub(r'\\c', 'c', s)\<close> replaces, from left to right, every backslash followed by
  \<open>c\<close> by \<open>c\<close> alone.
\<close>

abbreviation backslash :: char where
  "backslash \<equiv> CHR 0x5C"

fun sub_unescaped :: "char \<Rightarrow> string \<Rightarrow> bool \<Rightarrow> string \<Rightarrow> string" where
  "sub_unescaped c repl after_bs [] = []"
| "sub_unescaped c repl after_bs (x # xs) =
     (if x = c \<and> \<not> after_bs then repl else [x]) @ sub_unescaped c repl (x = backslash) xs"

fun sub_escaped :: "char \<Rightarrow> string \<Rightarrow> string" where
  "sub_escaped c (x # y # xs) =
     (if x = backslash \<and> y = c then c # sub_escaped c xs else x # sub_escaped c (y # xs))"
| "sub_escaped c xs = xs"

text \<open>
  A replacement string without a backslash is inserted as it is. One with a backslash is
  a template that the regular expression library expands for the text matched (escapes,
  group references) or rejects; that library is not part of the module, so its expansion
  is a parameter, from the template and the text matched: \<open>None\<close> is its \<open>re.error\<close>.
\<close>

definition re_repl ::
  "(string \<Rightarrow> string \<Rightarrow> string option) \<Rightarrow> string \<Rightarrow> string \<Rightarrow> error + string" where
  "re_repl template repl matched =
     (if backslash \<notin> set repl then Inr repl
      else case template repl matched of None \<Rightarrow> Inl ReError | Some r \<Rightarrow> Inr r)"

definition Transform ::
  "(string \<Rightarrow> string \<Rightarrow> string option) \<Rightarrow> string \<Rightarrow> build_info \<Rightarrow> error + string" where
  "Transform template string bi =
     (case re_repl template (PathCompile bi None None @ ''/'') ''#'' of
        Inl e \<Rightarrow> Inl e
      | Inr release \<Rightarrow>
          let string = sub_unescaped CHR ''#'' release False string;
              string = sub_escaped CHR ''#'' string
          in (case re_repl template (BinaryPath bi) ''@'' of
                Inl e \<Rightarrow> Inl e
              | Inr binary \<Rightarrow>
                  let string = sub_unescaped CHR ''@'' binary False string;
                      string = sub_escaped CHR ''@'' string
                  in Inr string))"


section \<open>The downloader's state and its collaborators\<close>

text \<open>
  A response object of the HTTPS client: its status code, its resolved URL, its headers in
  order, and what the successive calls of \<open>read\<close> deliver (a chunk of bytes, or a socket
  error); after the last entry \<open>read\<close> returns the empty chunk. Every read asks for
  \<open>CHUNK_BYTE_SIZE\<close> bytes, so an entry is what such a read returns. \<open>sid\<close> tells
  response objects apart.
\<close>

type_synonym bytes = "8 word list"

definition CHUNK_BYTE_SIZE :: nat where
  "CHUNK_BYTE_SIZE = 65536"

datatype read_result = Chunk bytes | SocketError string

record stream =
  sid :: nat
  getcode :: int
  geturl :: string
  headers :: "(string \<times> string) list"
  body :: "read_result list"

text \<open>
  What the outside world sees, in order: log lines, sleeps, calls of \<open>urlopen\<close> with the
  URL and the way the TLS context was chosen, reads and the close of a response, progress
  lines on standard output, calls of the signing and the copy collaborator.
\<close>

datatype log_level = INFO | ERROR

datatype ssl_context = DefaultContext | CaFile "string option" | ClientAuthContext

datatype event =
    Log log_level string
  | Sleep int
  | UrlOpen string ssl_context
  | StreamRead nat
  | StreamClose nat
  | Progress int int
  | Newline
  | SignUrl string
  | CopyFile string string

text \<open>
  The fields of a \<open>BaseDownloader\<close> (\<open>_debug_info\<close>, \<open>_save_location\<close>,
  \<open>_default_show_progress\<close>, \<open>_ca_cert_file\<close>) together with the world it acts on: the
  events so far, the number of \<open>urlopen\<close> calls made, and the files on disk.
\<close>

record state =
  debug_info :: "string \<rightharpoonup> string"
  save_location :: "string option"
  default_show_progress :: bool
  ca_cert_file :: "string option"
  events :: "event list"
  opened :: nat
  files :: "string \<rightharpoonup> bytes"

text \<open>
  \<open>urlopen\<close> returns a response (or \<open>None\<close>, when no handler of the opener takes the
  URL), or raises \<open>HTTPError\<close>, or raises another \<open>URLError\<close> with its text, or raises
  an exception of another class, which \<open>_OpenStream\<close> does not catch.
\<close>

datatype open_result = Response "stream option" | HTTPError | URLError string | Raises error

text \<open>
  The collaborators and libraries the module calls, none of them part of it:
  \<^item> \<open>urlopen\<close>: the network, asked for the n-th time (n calls came before) for a URL
    with a TLS context;
  \<^item> \<open>urlparse_netloc\<close>: the \<open>netloc\<close> of \<open>urllib.parse.urlparse(url)\<close>, or the
    exception the parser raises;
  \<^item> \<open>check_winpe\<close>: \<open>winpe.check_winpe()\<close>;
  \<^item> \<open>CheckBeyondCorp\<close>, \<open>GetSignedUrl\<close>: the access-control collaborator; \<open>Inl\<close>
    is the text of its \<open>BCError\<close>;
  \<^item> \<open>use_signed_url\<close>, \<open>config_server\<close>: the two flags read by \<open>_SetUrl\<close>;
  \<^item> \<open>file_util_Copy\<close>: the local-copy collaborator acting on the files; \<open>Inl\<close> is
    the text of its \<open>file_util.Error\<close>;
  \<^item> \<open>open_wb\<close>: whether \<open>open(path, 'wb')\<close> fails, and with which text;
  \<^item> \<open>strftime\<close>: the formatted current time;
  \<^item> \<open>sha256\<close>: the digest function of \<open>hashlib\<close>.
\<close>

record env =
  urlopen :: "nat \<Rightarrow> string \<Rightarrow> ssl_context \<Rightarrow> open_result"
  urlparse_netloc :: "string \<Rightarrow> error + string"
  check_winpe :: bool
  CheckBeyondCorp :: bool
  GetSignedUrl :: "string \<Rightarrow> string + string"
  use_signed_url :: bool
  config_server :: string
  file_util_Copy :: "string \<Rightarrow> string \<Rightarrow> (string \<rightharpoonup> bytes) \<Rightarrow> string + (string \<rightharpoonup> bytes)"
  open_wb :: "string \<Rightarrow> string option"
  strftime :: string
  sha256 :: "bytes \<Rightarrow> bytes"

definition emit :: "event \<Rightarrow> state \<Rightarrow> state" where
  "emit e s = s\<lparr>events := events s @ [e]\<rparr>"

definition SLEEP :: int where
  "SLEEP = 20"

section \<open>The retry gate\<close>

text \<open>\<open>_AttemptResource(attempt, max_retries, resource)\<close>.\<close>

definition AttemptResource :: "int \<Rightarrow> int \<Rightarrow> string \<Rightarrow> state \<Rightarrow> (error + unit) \<times> state" where
  "AttemptResource attempt max_retries resource s =
     (if max_retries < 0 then
        (Inr (),
         emit (Sleep SLEEP)
           (emit (Log INFO (''Failed attempt '' @ str_int attempt @ '' of Unlimited: Sleeping for ''
                   @ str_int SLEEP @ '' second(s) before retrying the '' @ resource @ ''.'')) s))
      else if attempt < max_retries then
        (Inr (),
         emit (Sleep SLEEP)
           (emit (Log INFO (''Failed attempt '' @ str_int attempt @ '' of '' @ str_int max_retries
                   @ '': Sleeping for '' @ str_int SLEEP @ '' second(s) before retrying the ''
                   @ resource @ ''.'')) s))
      else
        (Inl (DownloadError (''Failed to reach '' @ resource @ '' after '' @ str_int max_retries
                @ '' attempt(s).'')), s))"

section \<open>Opening a stream\<close>

definition do_urlopen :: "env \<Rightarrow> string \<Rightarrow> ssl_context \<Rightarrow> state \<Rightarrow> open_result \<times> state" where
  "do_urlopen env url ctx s =
     (urlopen env (opened s) url ctx, (emit (UrlOpen url ctx) s)\<lparr>opened := Suc (opened s)\<rparr>)"

definition connect_error_text :: "string \<Rightarrow> string \<Rightarrow> string" where
  "connect_error_text url e =
     ''Error connecting to remote server to download file \"'' @ url @ ''\". The error was: '' @ e"

text \<open>
  The \<open>try\<close> statement of one pass of the loop in \<open>_OpenStream\<close>. \<open>file_stream\<close> is
  assigned only when a call of \<open>urlopen\<close> returns; when both calls raise an error that
  is caught, it keeps the value it had before the pass.
\<close>

definition try_urlopen ::
  "env \<Rightarrow> string \<Rightarrow> stream option \<Rightarrow> state \<Rightarrow> (error + stream option) \<times> state" where
  "try_urlopen env url file_stream s =
     (case do_urlopen env url
             (if check_winpe env then CaFile (ca_cert_file s) else DefaultContext) s of
        (Response r, s) \<Rightarrow> (Inr r, s)
      | (HTTPError, s) \<Rightarrow>
          (Inr file_stream,
           emit (Log ERROR (''File not found on remote server: '' @ url @ ''.'')) s)
      | (URLError e, s) \<Rightarrow>
          (let s = emit (Log ERROR (connect_error_text url e)) s;
               s = emit (Log INFO ''Trying again with machine context...'') s
           in case do_urlopen env url ClientAuthContext s of
                (Response r, s) \<Rightarrow> (Inr r, s)
              | (HTTPError, s) \<Rightarrow>
                  (Inr file_stream,
                   emit (Log ERROR (''File not found on remote server: '' @ url @ ''.'')) s)
              | (URLError e, s) \<Rightarrow>
                  (Inr file_stream, emit (Log ERROR (connect_error_text url e)) s)
              | (Raises x, s) \<Rightarrow> (Inl x, s))
      | (Raises x, s) \<Rightarrow> (Inl x, s))"

text \<open>
  The \<open>if file_stream:\<close> statement: \<open>Inl\<close> leaves the loop (with the stream returned or
  the error raised), \<open>Inr\<close> goes on to the retry gate with the working URL.
  \<open>acceptable\<close> is \<open>(status_codes or [200])\<close>.
\<close>

definition acceptable :: "int list option \<Rightarrow> int list" where
  "acceptable status_codes =
     (case status_codes of None \<Rightarrow> [200] | Some cs \<Rightarrow> if cs = [] then [200] else cs)"

definition check_stream ::
  "int list option \<Rightarrow> string \<Rightarrow> stream option \<Rightarrow> (error + stream) + string" where
  "check_stream status_codes url file_stream =
     (case file_stream of
        None \<Rightarrow> Inr url
      | Some fs \<Rightarrow>
          if getcode fs \<in> set (acceptable status_codes) then Inl (Inr fs)
          else if getcode fs \<in> set [302] then Inr (geturl fs)
          else Inl (Inl (DownloadError (''Invalid return code for file '' @ url @ ''. [''
                           @ str_int (getcode fs) @ '']''))))"

text \<open>The \<open>while True\<close> loop; \<open>None\<close> when it never leaves.\<close>

partial_function (option) OpenStream_loop ::
  "env \<Rightarrow> int \<Rightarrow> int list option \<Rightarrow> int \<Rightarrow> string \<Rightarrow> stream option \<Rightarrow> state
     \<Rightarrow> ((error + stream) \<times> state) option" where
  "OpenStream_loop env max_retries status_codes attempt url file_stream s =
     (let attempt = attempt + 1 in
      case try_urlopen env url file_stream s of
        (Inl e, s) \<Rightarrow> Some (Inl e, s)
      | (Inr file_stream, s) \<Rightarrow>
          (case check_stream status_codes url file_stream of
             Inl r \<Rightarrow> Some (r, s)
           | Inr url \<Rightarrow>
               (case AttemptResource attempt max_retries ''file download'' s of
                  (Inl e, s) \<Rightarrow> Some (Inl e, s)
                | (Inr u, s) \<Rightarrow>
                    OpenStream_loop env max_retries status_codes attempt url file_stream s)))"

declare OpenStream_loop.simps [code]

text \<open>
  \<open>_OpenStream(url, max_retries=5, status_codes=None)\<close>. The opener it installs first is
  what \<open>urlopen\<close> then uses; it is part of the network as the model sees it.
\<close>

definition OpenStream ::
  "env \<Rightarrow> string \<Rightarrow> int \<Rightarrow> int list option \<Rightarrow> state \<Rightarrow> ((error + stream) \<times> state) option" where
  "OpenStream env url max_retries status_codes s =
     (let url = py_strip url in
      case urlparse_netloc env url of
        Inl e \<Rightarrow> Some (Inl e, s)
      | Inr netloc \<Rightarrow>
          if netloc = [] then
            Some (Inl (DownloadError (''Invalid remote server URL \"'' @ url @ ''\".'')), s)
          else OpenStream_loop env max_retries status_codes 0 url None s)"


text \<open>\<open>CheckUrl(url, status_codes, max_retries=5)\<close>: the error is logged, not raised.\<close>

definition CheckUrl ::
  "env \<Rightarrow> string \<Rightarrow> int list \<Rightarrow> int \<Rightarrow> state \<Rightarrow> ((error + bool) \<times> state) option" where
  "CheckUrl env url status_codes max_retries s =
     (case OpenStream env url max_retries (Some status_codes) s of
        None \<Rightarrow> None
      | Some (Inr fs, s) \<Rightarrow> Some (Inr True, s)
      | Some (Inl (DownloadError m), s) \<Rightarrow> Some (Inr False, emit (Log ERROR m) s)
      | Some (Inl e, s) \<Rightarrow> Some (Inl e, s))"

section \<open>Writing a stream to disk\<close>

text \<open>
  \<open>_StoreDebugInfo(file_stream, socket_error=None)\<close>: an empty text and \<open>None\<close> are
  falsy; a response object is truthy.
\<close>

definition StoreDebugInfo :: "env \<Rightarrow> stream option \<Rightarrow> string option \<Rightarrow> state \<Rightarrow> state" where
  "StoreDebugInfo env file_stream socket_error s =
     (let d = debug_info s;
          d = (case socket_error of
                 None \<Rightarrow> d
               | Some e \<Rightarrow> if e = [] then d else d(''socket_error'' \<mapsto> e));
          d = (case file_stream of
                 None \<Rightarrow> d
               | Some fs \<Rightarrow> fold (\<lambda>header d. d(fst header \<mapsto> snd header)) (headers fs) d);
          d = d(''current_time'' \<mapsto> strftime env)
      in s\<lparr>debug_info := d\<rparr>)"

text \<open>\<open>_Validate(file_stream, expected_size)\<close>; a path that is \<open>None\<close> is a \<open>TypeError\<close>.\<close>

definition Validate :: "env \<Rightarrow> stream \<Rightarrow> int \<Rightarrow> state \<Rightarrow> (error + unit) \<times> state" where
  "Validate env file_stream expected_size s =
     (case save_location s of
        None \<Rightarrow> (Inl TypeError, s)
      | Some location \<Rightarrow>
          (case files s location of
             None \<Rightarrow>
               (Inl (DownloadError (''Could not locate file at '' @ location)),
                StoreDebugInfo env (Some file_stream) None s)
           | Some content \<Rightarrow>
               (let actual_file_size = int (length content) in
                if actual_file_size \<noteq> expected_size then
                  (Inl (DownloadError (''File size of '' @ str_int actual_file_size
                          @ '' bytes did not match expected size of '' @ str_int expected_size
                          @ ''!'')),
                   StoreDebugInfo env (Some file_stream) None s)
                else (Inr (), s))))"

text \<open>
  \<open>_DownloadChunkReport(bytes_so_far, total_size)\<close> divides by the total size and writes a
  line of floating-point text to standard output; the line is kept as the two numbers it
  is made from.
\<close>

definition DownloadChunkReport :: "int \<Rightarrow> int \<Rightarrow> state \<Rightarrow> (error + unit) \<times> state" where
  "DownloadChunkReport bytes_so_far total_size s =
     (if total_size = 0 then (Inl ZeroDivisionError, s)
      else
        (let s = emit (Progress bytes_so_far total_size) s
         in (Inr (), if bytes_so_far \<ge> total_size then emit Newline s else s)))"

text \<open>
  \<open>file_stream.headers.get('Content-Length')\<close>: header names compare without case, the
  first match counts. \<open>int(text)\<close> takes an optional sign and decimal digits, single
  underscores between digits, whitespace around; anything else is a \<open>ValueError\<close>.
\<close>

definition header_get :: "(string \<times> string) list \<Rightarrow> string \<Rightarrow> string option" where
  "header_get hs name = map_of (map (\<lambda>h. (lower (fst h), snd h)) hs) (lower name)"

definition is_digit :: "char \<Rightarrow> bool" where
  "is_digit c = (48 \<le> (of_char c :: nat) \<and> (of_char c :: nat) \<le> 57)"

fun digits_ok :: "string \<Rightarrow> bool" where
  "digits_ok [] = False"
| "digits_ok [c] = is_digit c"
| "digits_ok (c # d # rest) =
     (is_digit c \<and> (if d = CHR ''_'' then digits_ok rest else digits_ok (d # rest)))"

definition digits_val :: "string \<Rightarrow> nat" where
  "digits_val ds =
     foldl (\<lambda>acc c. 10 * acc + (of_char c - 48)) 0 (filter (\<lambda>c. c \<noteq> CHR ''_'') ds)"

definition py_int :: "string \<Rightarrow> int option" where
  "py_int text =
     (let t = py_strip text;
          neg = (t \<noteq> [] \<and> hd t = CHR ''-'');
          ds = (if t \<noteq> [] \<and> (hd t = CHR ''-'' \<or> hd t = CHR ''+'') then tl t else t)
      in if digits_ok ds
         then Some (if neg then - int (digits_val ds) else int (digits_val ds))
         else None)"

text \<open>
  The body of the first \<open>try\<close> of \<open>_StreamToDisk\<close>: the resolved URL and the declared
  size. A missing header makes \<open>.strip()\<close> fail on \<open>None\<close>.
\<close>

definition read_size :: "stream \<Rightarrow> error + (string \<times> int)" where
  "read_size file_stream =
     (case header_get (headers file_stream) ''Content-Length'' of
        None \<Rightarrow> Inl AttributeError
      | Some v \<Rightarrow>
          (case py_int (py_strip v) of
             None \<Rightarrow> Inl (ValueError v)
           | Some n \<Rightarrow> Inr (geturl file_stream, n)))"

text \<open>The first loop of \<open>_StreamToDisk\<close>: only an \<open>AttributeError\<close> leads to the retry gate.\<close>

partial_function (option) size_loop ::
  "int \<Rightarrow> int \<Rightarrow> stream \<Rightarrow> state \<Rightarrow> ((error + (string \<times> int)) \<times> state) option" where
  "size_loop max_retries attempt file_stream s =
     (let attempt = attempt + 1 in
      case read_size file_stream of
        Inr r \<Rightarrow> Some (Inr r, s)
      | Inl AttributeError \<Rightarrow>
          (case AttemptResource attempt max_retries ''server URL'' s of
             (Inl e, s) \<Rightarrow> Some (Inl e, s)
           | (Inr u, s) \<Rightarrow> size_loop max_retries attempt file_stream s)
      | Inl e \<Rightarrow> Some (Inl e, s))"

declare size_loop.simps [code]

text \<open>
  The loop that reads and writes, over what the successive reads deliver. Every pass reads
  once; the empty chunk ends the loop; a chunk is appended to the file, and reported when
  progress is shown. A write to the opened file is taken to succeed.
\<close>

definition write_file :: "string \<Rightarrow> bytes \<Rightarrow> state \<Rightarrow> state" where
  "write_file path chunk s =
     s\<lparr>files := (files s)(path \<mapsto> (case files s path of None \<Rightarrow> [] | Some c \<Rightarrow> c) @ chunk)\<rparr>"

fun write_loop ::
  "bool \<Rightarrow> int \<Rightarrow> string \<Rightarrow> nat \<Rightarrow> read_result list \<Rightarrow> int \<Rightarrow> state \<Rightarrow> (error + unit) \<times> state" where
  "write_loop progress total_size path i [] bytes_so_far s = (Inr (), emit (StreamRead i) s)"
| "write_loop progress total_size path i (SocketError e # rest) bytes_so_far s =
     (Inl (OSError e), emit (StreamRead i) s)"
| "write_loop progress total_size path i (Chunk chunk # rest) bytes_so_far s =
     (let s = emit (StreamRead i) s;
          bytes_so_far = bytes_so_far + int (length chunk)
      in if chunk = [] then (Inr (), s)
         else
           (let s = write_file path chunk s
            in if progress then
                 (case DownloadChunkReport bytes_so_far total_size s of
                    (Inl e, s) \<Rightarrow> (Inl e, s)
                  | (Inr u, s) \<Rightarrow> write_loop progress total_size path i rest bytes_so_far s)
               else write_loop progress total_size path i rest bytes_so_far s))"

text \<open>
  The \<open>with open(self._save_location, 'wb')\<close> statement: opening creates or empties the
  file, or raises \<open>OSError\<close>; a path with a NUL character is refused with
  \<open>ValueError\<close>, as it is when a file is opened for reading.
\<close>

definition write_stream :: "env \<Rightarrow> bool \<Rightarrow> int \<Rightarrow> stream \<Rightarrow> state \<Rightarrow> (error + unit) \<times> state" where
  "write_stream env progress total_size file_stream s =
     (case save_location s of
        None \<Rightarrow> (Inl TypeError, s)
      | Some location \<Rightarrow>
          if CHR 0x00 \<in> set location then (Inl (ValueError ''embedded null byte''), s)
          else
            (case open_wb env location of
               Some e \<Rightarrow> (Inl (OSError e), s)
             | None \<Rightarrow>
                 (let s = s\<lparr>files := (files s)(location \<mapsto> [])\<rparr>;
                      s = emit (Log INFO (''Downloading file \"'' @ geturl file_stream @ ''\" to \"''
                                  @ location @ ''\".'')) s
                  in write_loop progress total_size location (sid file_stream)
                       (body file_stream) 0 s)))"

text \<open>
  \<open>_StreamToDisk(file_stream, show_progress=None, max_retries=5)\<close>. Of the two handlers
  of the second \<open>try\<close>, \<open>except socket.error\<close> comes first and takes every \<open>OSError\<close>,
  a failure to open the destination included; \<open>except IOError\<close> names the same class and
  is never reached. The response is closed after the validation has passed.
\<close>

definition StreamToDisk ::
  "env \<Rightarrow> stream \<Rightarrow> bool option \<Rightarrow> int \<Rightarrow> state \<Rightarrow> ((error + unit) \<times> state) option" where
  "StreamToDisk env file_stream show_progress max_retries s =
     (let progress = (case show_progress of None \<Rightarrow> default_show_progress s | Some p \<Rightarrow> p) in
      case size_loop max_retries 0 file_stream s of
        None \<Rightarrow> None
      | Some (Inl e, s) \<Rightarrow> Some (Inl e, s)
      | Some (Inr (url, total_size), s) \<Rightarrow>
          (case write_stream env progress total_size file_stream s of
             (Inl (OSError e), s) \<Rightarrow>
               Some (Inl (DownloadError ''Socket error during download.''),
                     StoreDebugInfo env (Some file_stream) (Some e) s)
           | (Inl e, s) \<Rightarrow> Some (Inl e, s)
           | (Inr u, s) \<Rightarrow>
               (case Validate env file_stream total_size s of
                  (Inl e, s) \<Rightarrow> Some (Inl e, s)
                | (Inr u, s) \<Rightarrow> Some (Inr (), emit (StreamClose (sid file_stream)) s))))"

section \<open>Downloading a file\<close>

text \<open>\<open>_SetUrl(url)\<close>; \<open>url[url.startswith(p) and len(p):]\<close> drops the prefix when it is there.\<close>

definition SetUrl :: "env \<Rightarrow> string \<Rightarrow> state \<Rightarrow> (error + string) \<times> state" where
  "SetUrl env url s =
     (if \<not> use_signed_url env then (Inr url, s)
      else
        (let server = config_server env @ ''/'';
             suffix = drop (if startswith url server then length server else 0) url;
             s = emit (SignUrl suffix) s
         in case GetSignedUrl env suffix of
              Inr signed_url \<Rightarrow> (Inr signed_url, s)
            | Inl e \<Rightarrow> (Inl (DownloadError e), s)))"

text \<open>
  The two statements that end the remote branch: \<open>file_stream = self._OpenStream(url,
  max_retries)\<close> and \<open>self._StreamToDisk(file_stream, show_progress)\<close>, the latter with
  its own default budget of 5.
\<close>

definition open_and_write ::
  "env \<Rightarrow> string \<Rightarrow> int \<Rightarrow> bool option \<Rightarrow> state \<Rightarrow> ((error + unit) \<times> state) option" where
  "open_and_write env url max_retries show_progress s =
     (case OpenStream env url max_retries None s of
        None \<Rightarrow> None
      | Some (Inl e, s) \<Rightarrow> Some (Inl e, s)
      | Some (Inr file_stream, s) \<Rightarrow> StreamToDisk env file_stream show_progress 5 s)"

text \<open>\<open>DownloadFile(url, save_location, max_retries=5, show_progress=False)\<close>.\<close>

definition DownloadFile ::
  "env \<Rightarrow> string \<Rightarrow> string \<Rightarrow> int \<Rightarrow> bool option \<Rightarrow> state \<Rightarrow> ((error + unit) \<times> state) option" where
  "DownloadFile env url location max_retries show_progress s =
     (let s = s\<lparr>save_location := Some location\<rparr> in
      if IsRemote url then
        (if CheckBeyondCorp env then
           (case SetUrl env url s of
              (Inl e, s) \<Rightarrow> Some (Inl e, s)
            | (Inr url, s) \<Rightarrow> open_and_write env url (- 1) show_progress s)
         else open_and_write env url max_retries show_progress s)
      else
        (let s = emit (CopyFile url location) s
         in case file_util_Copy env url location (files s) of
              Inl e \<Rightarrow> Some (Inl (DownloadError e), s)
            | Inr fs \<Rightarrow> Some (Inr (), s\<lparr>files := fs\<rparr>)))"

section \<open>Verifying a hash\<close>

text \<open>
  \<open>hexdigest()\<close> writes every byte of the digest as two lower-case hexadecimal digits.
\<close>

definition hex_digit :: "nat \<Rightarrow> char" where
  "hex_digit d = (if d < 10 then char_of (48 + d) else char_of (87 + d))"

definition hexdigest :: "bytes \<Rightarrow> string" where
  "hexdigest digest = concat (map (\<lambda>b. [hex_digit (unat b div 16), hex_digit (unat b mod 16)]) digest)"

text \<open>
  The read loop of \<open>VerifyShaHash\<close>: chunks of at most \<open>n\<close> bytes are fed to the hash
  object until a read returns nothing. The hash object is the bytes it has been fed.
\<close>

function update_loop :: "nat \<Rightarrow> bytes \<Rightarrow> bytes \<Rightarrow> bytes" where
  "update_loop n rest fed =
     (let current_chunk = take n rest
      in if current_chunk = [] then fed
         else update_loop n (drop n rest) (fed @ current_chunk))"
  by pat_completeness auto
termination
  by (relation "measure (\<lambda>(n, rest, fed). length rest)") auto

declare update_loop.simps [simp del]

text \<open>
  \<open>open(file_path, 'rb')\<close>. A path with a NUL character is refused before the disk is
  looked at, with a \<open>ValueError\<close> (its text here is the one of POSIX systems); any other
  path that is not a readable file raises \<open>OSError\<close>.
\<close>

definition open_rb :: "state \<Rightarrow> string \<Rightarrow> error + bytes" where
  "open_rb s path =
     (if CHR 0x00 \<in> set path then Inl (ValueError ''embedded null byte'')
      else case files s path of
             None \<Rightarrow> Inl (OSError (''No such file: '' @ path))
           | Some c \<Rightarrow> Inr c)"

text \<open>
  \<open>VerifyShaHash(file_path, expected)\<close>; \<open>except IOError\<close> takes every \<open>OSError\<close> and
  nothing else, so any other exception of \<open>open\<close> leaves the method.
\<close>

definition VerifyShaHash :: "env \<Rightarrow> string \<Rightarrow> string \<Rightarrow> state \<Rightarrow> (error + bool) \<times> state" where
  "VerifyShaHash env file_path expected s =
     (case open_rb s file_path of
        Inl (OSError e) \<Rightarrow>
          (Inr False,
           emit (Log ERROR (''Unable to read file '' @ file_path @ '' for SHA verification.'')) s)
      | Inl e \<Rightarrow> (Inl e, s)
      | Inr content \<Rightarrow>
          (let file_hash = hexdigest (sha256 env (update_loop 4194304 content []));
               expected = lower expected
           in if file_hash = expected then
                (Inr True,
                 emit (Log INFO (''SHA256 hash for '' @ file_path @ '' matched expected hash of ''
                         @ expected @ ''.'')) s)
              else
                (Inr False,
                 emit (Log ERROR (''SHA256 hash for '' @ file_path @ '' was '' @ file_hash
                         @ '', which did not match expected hash of '' @ expected @ ''.'')) s)))"


section \<open>Observations on a run\<close>

text \<open>
  The sleeps of a run in order, the URLs handed to \<open>urlopen\<close> in order, and what happened
  to the response object \<open>i\<close>: its reads and its closes, in order.
\<close>

fun sleep_of :: "event \<Rightarrow> int list" where
  "sleep_of (Sleep d) = [d]"
| "sleep_of e = []"

definition slept :: "state \<Rightarrow> int list" where
  "slept s = concat (map sleep_of (events s))"

fun url_of :: "event \<Rightarrow> string list" where
  "url_of (UrlOpen u c) = [u]"
| "url_of e = []"

definition requested :: "state \<Rightarrow> string list" where
  "requested s = concat (map url_of (events s))"

definition on_stream :: "nat \<Rightarrow> event list \<Rightarrow> event list" where
  "on_stream i es = filter (\<lambda>e. e = StreamRead i \<or> e = StreamClose i) es"

text \<open>Of a run that ended: what it returned or raised, and the state it left.\<close>

definition result_of :: "('a \<times> state) option \<Rightarrow> 'a option" where
  "result_of run = map_option fst run"

definition state_of :: "('a \<times> state) option \<Rightarrow> state option" where
  "state_of run = map_option snd run"

text \<open>
  What a response delivers to the loop that reads and writes: the chunks up to the first
  empty one or the first socket error; and whether the reads end without a socket error.
\<close>

fun delivered :: "read_result list \<Rightarrow> bytes" where
  "delivered [] = []"
| "delivered (SocketError e # rest) = []"
| "delivered (Chunk c # rest) = (if c = [] then [] else c @ delivered rest)"

fun undisturbed :: "read_result list \<Rightarrow> bool" where
  "undisturbed [] = True"
| "undisturbed (SocketError e # rest) = False"
| "undisturbed (Chunk c # rest) = (c = [] \<or> undisturbed rest)"

section \<open>Reference functions for the path operations\<close>

text \<open>
  The sub-path segments with the two ends of the sub-path stripped: the first segment
  without its leading slashes and the last without its trailing slashes.
\<close>

fun strip_ends :: "string list \<Rightarrow> string list" where
  "strip_ends [] = []"
| "strip_ends [p] = [strip_chr CHR ''/'' p]"
| "strip_ends (p # q # ps) =
     lstrip_chr CHR ''/'' p # butlast (q # ps) @ [rstrip_chr CHR ''/'' (last (q # ps))]"

text \<open>
  The components \<open>PathCompile\<close> puts together: the base without its trailing slashes,
  the sub-path segments stripped at the two ends of the sub-path, and the file name
  without its leading slashes when one is given.
\<close>

definition path_components :: "build_info \<Rightarrow> string option \<Rightarrow> string option \<Rightarrow> string list" where
  "path_components bi file_name base =
     [rstrip_chr CHR ''/''
        (case base of None \<Rightarrow> ReleasePath bi | Some b \<Rightarrow> if b = [] then ReleasePath bi else b)]
     @ strip_ends (ActiveConfigPath bi)
     @ (case file_name of
          None \<Rightarrow> []
        | Some f \<Rightarrow> if f = [] then [] else [lstrip_chr CHR ''/'' f])"

text \<open>
  The expansion of a template in one pass from left to right, as the documentation of
  \<open>Transform\<close> describes it: a backslash followed by a marker gives the marker itself, a
  marker on its own gives its expansion (\<open>R\<close> for \<open>#\<close>, \<open>B\<close> for \<open>@\<close>), every other
  character stays. \<open>expand_hash\<close> is the same for the marker \<open>#\<close> alone.
\<close>

fun expand_hash :: "string \<Rightarrow> string \<Rightarrow> string" where
  "expand_hash R (x # y # ys) =
     (if x = backslash \<and> y = CHR ''#'' then CHR ''#'' # expand_hash R ys
      else (if x = CHR ''#'' then R else [x]) @ expand_hash R (y # ys))"
| "expand_hash R [x] = (if x = CHR ''#'' then R else [x])"
| "expand_hash R [] = []"

fun expand_markers :: "string \<Rightarrow> string \<Rightarrow> string \<Rightarrow> string" where
  "expand_markers R B (x # y # ys) =
     (if x = backslash \<and> (y = CHR ''#'' \<or> y = CHR ''@'') then y # expand_markers R B ys
      else (if x = CHR ''#'' then R else if x = CHR ''@'' then B else [x])
           @ expand_markers R B (y # ys))"
| "expand_markers R B [x] = (if x = CHR ''#'' then R else if x = CHR ''@'' then B else [x])"
| "expand_markers R B [] = []"

section \<open>Example environments\<close>

text \<open>
  A regular expression library that rejects every template with a backslash, a fresh
  downloader in an empty world, and collaborators for the examples: a parser that
  finds the host of \<open>scheme://host/...\<close> and nothing else, a network that answers the first
  \<open>k\<close> calls with a redirect to \<open>https://mirror/f\<close> and every later call with a response
  \<open>r\<close>, a copy collaborator that copies an existing file, a signing collaborator that
  answers with a URL under \<open>https://signed/\<close>, and the first 32 bytes of the input as a
  stand-in for the digest.
\<close>

definition no_templates :: "string \<Rightarrow> string \<Rightarrow> string option" where
  "no_templates repl matched = None"

definition fresh :: state where
  "fresh = \<lparr>debug_info = Map.empty, save_location = None, default_show_progress = False,
            ca_cert_file = None, events = [], opened = 0, files = Map.empty\<rparr>"

definition example_netloc :: "string \<Rightarrow> error + string" where
  "example_netloc u =
     (case dropWhile (\<lambda>c. c \<noteq> CHR '':'') u of
        a # b # c # rest \<Rightarrow>
          if b = CHR ''/'' \<and> c = CHR ''/''
          then Inr (takeWhile (\<lambda>x. x \<noteq> CHR ''/'' \<and> x \<noteq> CHR ''?'' \<and> x \<noteq> CHR ''#'') rest)
          else Inr []
      | xs \<Rightarrow> Inr [])"

definition example_copy :: "string \<Rightarrow> string \<Rightarrow> (string \<rightharpoonup> bytes) \<Rightarrow> string + (string \<rightharpoonup> bytes)" where
  "example_copy src dst fs =
     (case fs src of None \<Rightarrow> Inl (''not found: '' @ src) | Some c \<Rightarrow> Inr (fs(dst \<mapsto> c)))"

definition redirect :: stream where
  "redirect = \<lparr>sid = 0, getcode = 302, geturl = ''https://mirror/f'', headers = [], body = []\<rparr>"

definition served :: "bytes \<Rightarrow> stream" where
  "served content =
     \<lparr>sid = 1, getcode = 200, geturl = ''https://mirror/f'',
      headers = [(''Server'', ''example''), (''Content-Length'', ''3'')],
      body = [Chunk content]\<rparr>"

definition example_env :: "nat \<Rightarrow> stream \<Rightarrow> env" where
  "example_env k r =
     \<lparr>urlopen = (\<lambda>n url ctx. if n < k then Response (Some redirect) else Response (Some r)),
      urlparse_netloc = example_netloc,
      check_winpe = False,
      CheckBeyondCorp = False,
      GetSignedUrl = (\<lambda>u. Inr (''https://signed/'' @ u)),
      use_signed_url = False,
      config_server = ''https://config'',
      file_util_Copy = example_copy,
      open_wb = (\<lambda>p. None),
      strftime = ''Friday, 06 November 2026 00:00:00 UTC'',
      sha256 = (\<lambda>b. take 32 b)\<rparr>"


text \<open>
  The same collaborators with the access-control layer enabled and the signing flag as
  given; a downloader whose destination is set; one whose destination already holds a file.
\<close>

definition signing_env :: "bool \<Rightarrow> env" where
  "signing_env flag =
     (example_env 0 (served [1, 2, 3]))\<lparr>CheckBeyondCorp := True, use_signed_url := flag\<rparr>"

definition awaiting :: state where
  "awaiting = fresh\<lparr>save_location := Some ''C:/f''\<rparr>"

definition on_disk :: "bytes \<Rightarrow> state" where
  "on_disk content = fresh\<lparr>save_location := Some ''C:/f'', files := [''C:/f'' \<mapsto> content]\<rparr>"

text \<open>
  The access-control layer enabled, over a network that answers the first \<open>k\<close> calls with
  an HTTP error and every later call with a response of three bytes.
\<close>

definition failing_env :: "nat \<Rightarrow> bool \<Rightarrow> env" where
  "failing_env k flag =
     (signing_env flag)
       \<lparr>urlopen := (\<lambda>n url ctx. if n < k then HTTPError else Response (Some (served [1, 2, 3])))\<rparr>"

text \<open>The access-control layer with the flag set and a collaborator that refuses to sign.\<close>

definition refusing_env :: env where
  "refusing_env = (signing_env True)\<lparr>GetSignedUrl := (\<lambda>u. Inl ''no signature'')\<rparr>"

section \<open>What an event leaves unchanged\<close>

lemma slept_emit: "slept (emit e s) = slept s @ sleep_of e"
  by (simp add: slept_def emit_def)

lemma requested_emit: "requested (emit e s) = requested s @ url_of e"
  by (simp add: requested_def emit_def)

lemma opened_emit: "opened (emit e s) = opened s"
  by (simp add: emit_def)

lemma events_emit: "events (emit e s) = events s @ [e]"
  by (simp add: emit_def)

lemma files_emit: "files (emit e s) = files s"
  by (simp add: emit_def)

lemma save_location_emit: "save_location (emit e s) = save_location s"
  by (simp add: emit_def)

section \<open>Path compilation\<close>

lemma rstrip_chr_last: "rstrip_chr c s = [] \<or> last (rstrip_chr c s) \<noteq> c"
  unfolding rstrip_chr_def
  by (metis (mono_tags, lifting) hd_dropWhile last_rev rev_is_Nil_conv)

lemma lstrip_chr_hd: "lstrip_chr c s = [] \<or> hd (lstrip_chr c s) \<noteq> c"
  unfolding lstrip_chr_def
  by (metis (mono_tags, lifting) hd_dropWhile)

lemma join_snoc: "ps \<noteq> [] \<Longrightarrow> join sep (ps @ [p]) = join sep ps @ sep @ p"
  by (induction sep ps rule: join.induct) auto

lemma join_last_nonempty: "ps \<noteq> [] \<Longrightarrow> last ps \<noteq> [] \<Longrightarrow> join sep ps \<noteq> []"
  by (induction sep ps rule: join.induct) auto

lemma last_join: "ps \<noteq> [] \<Longrightarrow> last ps \<noteq> [] \<Longrightarrow> last (join sep ps) = last (last ps)"
  by (induction sep ps rule: join.induct) (auto simp: join_last_nonempty)

lemma join_append1: "qs \<noteq> [] \<Longrightarrow> join sep (p # qs) = p @ sep @ join sep qs"
  by (cases qs) auto

lemma join_butlast_last:
  "ps \<noteq> [] \<Longrightarrow> join sep ps = concat (map (\<lambda>p. p @ sep) (butlast ps)) @ last ps"
  by (induction sep ps rule: join.induct) auto

text \<open>
  Stripping goes no further than the first character that stays: what follows a part
  that keeps a character is untouched by \<open>lstrip\<close>, what precedes one by \<open>rstrip\<close>.
\<close>

lemma lstrip_chr_append: "lstrip_chr c a \<noteq> [] \<Longrightarrow> lstrip_chr c (a @ b) = lstrip_chr c a @ b"
proof -
  assume "lstrip_chr c a \<noteq> []"
  then obtain x where "x \<in> set a" "x \<noteq> c"
    by (auto simp: lstrip_chr_def dropWhile_eq_Nil_conv)
  then show ?thesis
    unfolding lstrip_chr_def by (intro dropWhile_append1) auto
qed

lemma rstrip_chr_append: "rstrip_chr c b \<noteq> [] \<Longrightarrow> rstrip_chr c (a @ b) = a @ rstrip_chr c b"
proof -
  assume "rstrip_chr c b \<noteq> []"
  then have "dropWhile (\<lambda>x. x = c) (rev b) \<noteq> []"
    by (simp add: rstrip_chr_def)
  then obtain x where "x \<in> set (rev b)" "x \<noteq> c"
    by (auto simp: dropWhile_eq_Nil_conv)
  then have "dropWhile (\<lambda>x. x = c) (rev b @ rev a) = dropWhile (\<lambda>x. x = c) (rev b) @ rev a"
    by (intro dropWhile_append1) auto
  then show ?thesis
    by (simp add: rstrip_chr_def)
qed

lemma strip_ends_Nil: "(strip_ends ps = []) = (ps = [])"
  by (cases ps rule: strip_ends.cases) auto

text \<open>
  When the first segment is not made of slashes only, and neither is the last, stripping
  the joined sub-path is stripping the outer end of its first and of its last segment.
\<close>

lemma strip_join_ends:
  assumes "\<forall>seg \<in> set (strip_ends ps). seg \<noteq> []"
  shows "strip_chr CHR ''/'' (join ''/'' ps) = join ''/'' (strip_ends ps)"
proof (cases ps rule: strip_ends.cases)
  case 1
  then show ?thesis by (simp add: strip_chr_def lstrip_chr_def rstrip_chr_def)
next
  case (2 p)
  then show ?thesis by simp
next
  case (3 p q qs)
  let ?m = "concat (map (\<lambda>p. p @ ''/'') (butlast (q # qs)))"
  let ?l = "last (q # qs)"
  from assms 3 have p: "lstrip_chr CHR ''/'' p \<noteq> []" and l: "rstrip_chr CHR ''/'' ?l \<noteq> []"
    by auto
  have j: "join ''/'' (q # qs) = ?m @ ?l"
    by (rule join_butlast_last) simp
  have "join ''/'' ps = p @ (''/'' @ ?m @ ?l)"
    using 3 j by (simp add: join_append1)
  then have "strip_chr CHR ''/'' (join ''/'' ps)
      = rstrip_chr CHR ''/'' (lstrip_chr CHR ''/'' p @ (''/'' @ ?m @ ?l))"
    using p by (simp add: strip_chr_def lstrip_chr_append)
  also have "\<dots> = rstrip_chr CHR ''/'' ((lstrip_chr CHR ''/'' p @ ''/'' @ ?m) @ ?l)"
    by simp
  also have "\<dots> = (lstrip_chr CHR ''/'' p @ ''/'' @ ?m) @ rstrip_chr CHR ''/'' ?l"
    using l by (rule rstrip_chr_append)
  also have "\<dots> = join ''/'' (strip_ends ps)"
  proof -
    have "strip_ends ps = lstrip_chr CHR ''/'' p # (butlast (q # qs) @ [rstrip_chr CHR ''/'' ?l])"
      using 3 by simp
    moreover have "join ''/'' (butlast (q # qs) @ [rstrip_chr CHR ''/'' ?l])
        = ?m @ rstrip_chr CHR ''/'' ?l"
      by (subst join_butlast_last) simp_all
    ultimately show ?thesis by (simp add: join_append1)
  qed
  finally show ?thesis .
qed

text \<open>
  Claim C6, as amended. \<open>PathCompile\<close> strips the base of its trailing slashes, the
  joined sub-path of its leading and trailing slashes, and the file name of its leading
  slashes. Take the sub-path segments with the leading slashes of the first and the
  trailing slashes of the last removed: when none of them is then empty or starts or
  ends with a slash, \<open>PathCompile\<close> is the base, these segments and the file name joined by
  one slash each: no component that is followed by another ends with a slash, none that
  follows another starts with one, and without a file name the result has no trailing
  slash. A slash that a segment has towards its neighbour inside the sub-path is not
  removed; such a sub-path is outside the statement.
\<close>

theorem PathCompile_single_slashes:
  assumes segs: "\<forall>seg \<in> set (strip_ends (ActiveConfigPath bi)).
                   seg \<noteq> [] \<and> hd seg \<noteq> CHR ''/'' \<and> last seg \<noteq> CHR ''/''"
  shows "PathCompile bi file_name base = join ''/'' (path_components bi file_name base)
       \<and> (\<forall>c \<in> set (butlast (path_components bi file_name base)). c = [] \<or> last c \<noteq> CHR ''/'')
       \<and> (\<forall>c \<in> set (tl (path_components bi file_name base)). c = [] \<or> hd c \<noteq> CHR ''/'')
       \<and> (\<not> truthy file_name \<longrightarrow>
            PathCompile bi file_name base = [] \<or> last (PathCompile bi file_name base) \<noteq> CHR ''/'')"
proof -
  let ?sub = "ActiveConfigPath bi"
  let ?seg = "strip_ends (ActiveConfigPath bi)"
  define b where "b = rstrip_chr CHR ''/''
      (case base of None \<Rightarrow> ReleasePath bi | Some b \<Rightarrow> if b = [] then ReleasePath bi else b)"
  define fs where "fs = (case file_name of
      None \<Rightarrow> [] | Some f \<Rightarrow> if f = [] then [] else [lstrip_chr CHR ''/'' f])"
  have comps: "path_components bi file_name base = b # ?seg @ fs"
    by (simp add: path_components_def b_def fs_def)
  have compile: "PathCompile bi file_name base =
      (b @ (if ?sub = [] then [] else ''/'' @ strip_chr CHR ''/'' (join ''/'' ?sub)))
      @ (case fs of [] \<Rightarrow> [] | f # r \<Rightarrow> ''/'' @ f)"
    by (simp add: PathCompile_def Let_def b_def fs_def split: option.splits)
  have fs: "fs = [] \<or> (\<exists>f. fs = [f] \<and> (f = [] \<or> hd f \<noteq> CHR ''/''))"
    using lstrip_chr_hd [of "CHR ''/''"] by (auto simp: fs_def split: option.splits)
  have no_file: "\<not> truthy file_name \<Longrightarrow> fs = []"
    by (auto simp: truthy_def fs_def split: option.splits)
  have b: "b = [] \<or> last b \<noteq> CHR ''/''"
    unfolding b_def by (rule rstrip_chr_last)
  have strip: "strip_chr CHR ''/'' (join ''/'' ?sub) = join ''/'' ?seg"
    using segs by (intro strip_join_ends) blast
  have upto_sub: "b @ (if ?sub = [] then [] else ''/'' @ strip_chr CHR ''/'' (join ''/'' ?sub))
      = join ''/'' (b # ?seg)"
    by (simp add: join_append1 strip strip_ends_Nil)
  have joined: "PathCompile bi file_name base =
      join ''/'' (b # ?seg) @ (case fs of [] \<Rightarrow> [] | f # r \<Rightarrow> ''/'' @ f)"
    unfolding compile upto_sub by (rule refl)
  have eq: "PathCompile bi file_name base = join ''/'' (path_components bi file_name base)"
  proof (cases "fs = []")
    case True
    with joined comps show ?thesis by simp
  next
    case False
    with fs obtain f where f: "fs = [f]" by blast
    have "join ''/'' ((b # ?seg) @ [f]) = join ''/'' (b # ?seg) @ ''/'' @ f"
      by (rule join_snoc) simp
    with f joined comps show ?thesis by simp
  qed
  have ends: "\<forall>c \<in> set (butlast (path_components bi file_name base)). c = [] \<or> last c \<noteq> CHR ''/''"
    using segs b fs by (auto simp: comps butlast_append dest: in_set_butlastD)
  have starts: "\<forall>c \<in> set (tl (path_components bi file_name base)). c = [] \<or> hd c \<noteq> CHR ''/''"
    using segs fs by (auto simp: comps)
  have trail: "\<not> truthy file_name \<longrightarrow>
      PathCompile bi file_name base = [] \<or> last (PathCompile bi file_name base) \<noteq> CHR ''/''"
  proof
    assume "\<not> truthy file_name"
    then have nf: "fs = []" by (rule no_file)
    show "PathCompile bi file_name base = [] \<or> last (PathCompile bi file_name base) \<noteq> CHR ''/''"
    proof (cases "?seg = []")
      case True
      with nf joined b show ?thesis by simp
    next
      case False
      then have "last ?seg \<in> set ?seg" by simp
      with segs have l: "last ?seg \<noteq> []" "last (last ?seg) \<noteq> CHR ''/''" by blast+
      from False l have "join ''/'' ?seg \<noteq> []" "last (join ''/'' ?seg) \<noteq> CHR ''/''"
        by (simp_all add: join_last_nonempty last_join)
      with False nf joined show ?thesis by (simp add: join_append1)
    qed
  qed
  from eq ends starts trail show ?thesis by blast
qed

text \<open>
  The two examples of the specification, a sub-path whose two ends carry slashes, and a
  base, a sub-path of one segment and a file name that all carry slashes at the places
  that are stripped.
\<close>

theorem PathCompile_single_slashes_witness:
  "PathCompile \<lparr>ReleasePath = ''https://r'', ActiveConfigPath = [''a'', ''b''], BinaryPath = ''B''\<rparr>
       (Some ''f.txt'') (Some ''https://x'') = ''https://x/a/b/f.txt''
   \<and> PathCompile \<lparr>ReleasePath = ''https://r'', ActiveConfigPath = [], BinaryPath = ''B''\<rparr>
       None (Some ''https://x/'') = ''https://x''
   \<and> PathCompile \<lparr>ReleasePath = ''https://r'', ActiveConfigPath = [''/a'', ''b/''], BinaryPath = ''B''\<rparr>
       None (Some ''https://x'') = ''https://x/a/b''
   \<and> PathCompile \<lparr>ReleasePath = ''https://r/'', ActiveConfigPath = [''//a/b//''], BinaryPath = ''B''\<rparr>
       (Some ''/f.txt'') None = ''https://r/a/b/f.txt''"
proof -
  let ?bi = "\<lparr>ReleasePath = ''https://r'', ActiveConfigPath = [''a'', ''b''], BinaryPath = ''B''\<rparr>"
  let ?bj = "\<lparr>ReleasePath = ''https://r'', ActiveConfigPath = [], BinaryPath = ''B''\<rparr>"
  let ?bk = "\<lparr>ReleasePath = ''https://r'', ActiveConfigPath = [''/a'', ''b/''], BinaryPath = ''B''\<rparr>"
  let ?bl = "\<lparr>ReleasePath = ''https://r/'', ActiveConfigPath = [''//a/b//''], BinaryPath = ''B''\<rparr>"
  have "\<forall>seg \<in> set (strip_ends (ActiveConfigPath ?bi)).
      seg \<noteq> [] \<and> hd seg \<noteq> CHR ''/'' \<and> last seg \<noteq> CHR ''/''"
    by (simp add: lstrip_chr_def rstrip_chr_def)
  from PathCompile_single_slashes [OF this, of "Some ''f.txt''" "Some ''https://x''"]
  have a: "PathCompile ?bi (Some ''f.txt'') (Some ''https://x'') = ''https://x/a/b/f.txt''"
    by (simp add: path_components_def rstrip_chr_def lstrip_chr_def)
  have "\<forall>seg \<in> set (strip_ends (ActiveConfigPath ?bj)).
      seg \<noteq> [] \<and> hd seg \<noteq> CHR ''/'' \<and> last seg \<noteq> CHR ''/''"
    by simp
  from PathCompile_single_slashes [OF this, of None "Some ''https://x/''"]
  have b: "PathCompile ?bj None (Some ''https://x/'') = ''https://x''"
    by (simp add: path_components_def rstrip_chr_def)
  have "\<forall>seg \<in> set (strip_ends (ActiveConfigPath ?bk)).
      seg \<noteq> [] \<and> hd seg \<noteq> CHR ''/'' \<and> last seg \<noteq> CHR ''/''"
    by (simp add: lstrip_chr_def rstrip_chr_def)
  from PathCompile_single_slashes [OF this, of None "Some ''https://x''"]
  have c: "PathCompile ?bk None (Some ''https://x'') = ''https://x/a/b''"
    by (simp add: path_components_def rstrip_chr_def lstrip_chr_def)
  have "\<forall>seg \<in> set (strip_ends (ActiveConfigPath ?bl)).
      seg \<noteq> [] \<and> hd seg \<noteq> CHR ''/'' \<and> last seg \<noteq> CHR ''/''"
    by (simp add: lstrip_chr_def rstrip_chr_def strip_chr_def)
  from PathCompile_single_slashes [OF this, of "Some ''/f.txt''" None]
  have d: "PathCompile ?bl (Some ''/f.txt'') None = ''https://r/a/b/f.txt''"
    by (simp add: path_components_def rstrip_chr_def lstrip_chr_def strip_chr_def)
  from a b c d show ?thesis by simp
qed

text \<open>
  A segment that ends with a slash before another segment leaves two slashes between
  the two, and a sub-path that is a single slash leaves a trailing slash although no
  file name is given.
\<close>

theorem PathCompile_counterexample:
  "PathCompile \<lparr>ReleasePath = ''https://r'', ActiveConfigPath = [''a/'', ''b''], BinaryPath = ''B''\<rparr>
       None (Some ''https://x'') = ''https://x/a//b''
   \<and> PathCompile \<lparr>ReleasePath = ''https://r'', ActiveConfigPath = [''/''], BinaryPath = ''B''\<rparr>
       None (Some ''https://x'') = ''https://x/''"
  by (simp add: PathCompile_def rstrip_chr_def lstrip_chr_def strip_chr_def)


section \<open>Shorthand expansion\<close>

lemma sub_escaped_Cons: "x \<noteq> backslash \<Longrightarrow> sub_escaped c (x # xs) = x # sub_escaped c xs"
  by (cases xs) auto

lemma sub_escaped_bs_Cons:
  "xs = [] \<or> hd xs \<noteq> c \<Longrightarrow> sub_escaped c (backslash # xs) = backslash # sub_escaped c xs"
  by (cases xs) auto

lemma sub_escaped_prefix:
  "backslash \<notin> set xs \<Longrightarrow> sub_escaped c (xs @ ys) = xs @ sub_escaped c ys"
  by (induction xs) (auto simp: sub_escaped_Cons)

lemma sub_unescaped_append:
  "sub_unescaped c r f (xs @ ys) =
     sub_unescaped c r f xs @ sub_unescaped c r (if xs = [] then f else last xs = backslash) ys"
  by (induction xs arbitrary: f) auto

lemma sub_unescaped_absent: "c \<notin> set xs \<Longrightarrow> sub_unescaped c r f xs = xs"
  by (induction xs arbitrary: f) auto

lemma hd_sub_unescaped:
  "xs \<noteq> [] \<Longrightarrow> hd xs \<noteq> c \<Longrightarrow> sub_unescaped c r f xs \<noteq> [] \<and> hd (sub_unescaped c r f xs) = hd xs"
  by (cases xs) auto

lemma hash_passes:
  "backslash \<notin> set R \<Longrightarrow> (f \<longrightarrow> s = [] \<or> hd s \<noteq> CHR ''#'') \<Longrightarrow>
     sub_escaped CHR ''#'' (sub_unescaped CHR ''#'' R f s) = expand_hash R s"
proof (induction R s arbitrary: f rule: expand_hash.induct)
  case (1 R x y ys)
  show ?case
  proof (cases "x = backslash \<and> y = CHR ''#''")
    case True
    with 1 show ?thesis by simp
  next
    case False
    note nesc = this
    have IH: "sub_escaped CHR ''#'' (sub_unescaped CHR ''#'' R (x = backslash) (y # ys)) = expand_hash R (y # ys)"
      using 1 nesc by auto
    show ?thesis
    proof (cases "x = CHR ''#''")
      case True
      with 1 have "\<not> f" by simp
      with True nesc IH 1(3) show ?thesis
        by (simp add: sub_escaped_prefix del: sub_escaped.simps expand_hash.simps(1))
           (simp)
    next
      case False
      note nhash = this
      show ?thesis
      proof (cases "x = backslash")
        case True
        with nesc have "y \<noteq> CHR ''#''" by simp
        with True nhash IH show ?thesis by simp
      next
        case False
        with nhash nesc IH show ?thesis
          by (simp add: sub_escaped_Cons del: sub_escaped.simps)
      qed
    qed
  qed
next
  case (2 R x)
  then show ?case by (auto simp: sub_escaped_prefix [of _ _ "[]", simplified])
next
  case (3 R)
  then show ?case by simp
qed


lemma expand_hash_Cons:
  "x \<noteq> backslash \<or> ys = [] \<or> hd ys \<noteq> CHR ''#'' \<Longrightarrow>
     expand_hash R (x # ys) = (if x = CHR ''#'' then R else [x]) @ expand_hash R ys"
  by (cases ys) auto

lemma hd_expand_hash:
  "ys \<noteq> [] \<Longrightarrow> hd ys \<noteq> CHR ''#'' \<Longrightarrow> hd ys \<noteq> CHR ''@'' \<Longrightarrow>
     expand_hash R ys \<noteq> [] \<and> hd (expand_hash R ys) \<noteq> CHR ''@''"
  by (induction R ys rule: expand_hash.induct) auto

lemma at_passes:
  "backslash \<notin> set R \<Longrightarrow> CHR ''@'' \<notin> set R \<Longrightarrow> backslash \<notin> set B \<Longrightarrow>
   (f \<longrightarrow> s = [] \<or> (hd s \<noteq> CHR ''#'' \<and> hd s \<noteq> CHR ''@'')) \<Longrightarrow>
     sub_escaped CHR ''@'' (sub_unescaped CHR ''@'' B f (expand_hash R s)) = expand_markers R B s"
proof (induction R B s arbitrary: f rule: expand_markers.induct)
  case (1 R B x y ys)
  note R = \<open>backslash \<notin> set R\<close> \<open>CHR ''@'' \<notin> set R\<close> and B = \<open>backslash \<notin> set B\<close>
  let ?E = "expand_hash R (y # ys)"
  show ?case
  proof (cases "x = backslash \<and> (y = CHR ''#'' \<or> y = CHR ''@'')")
    case True
    then have IH: "sub_escaped CHR ''@'' (sub_unescaped CHR ''@'' B False (expand_hash R ys))
        = expand_markers R B ys"
      using "1.IH"(1) [of False] R B by simp
    from True show ?thesis
    proof (elim conjE disjE)
      assume "x = backslash" "y = CHR ''#''"
      with IH show ?thesis by (simp add: sub_escaped_Cons)
    next
      assume "x = backslash" "y = CHR ''@''"
      with IH show ?thesis by (simp add: expand_hash_Cons)
    qed
  next
    case False
    note nesc = this
    have IH: "g \<longrightarrow> y \<noteq> CHR ''#'' \<and> y \<noteq> CHR ''@'' \<Longrightarrow>
        sub_escaped CHR ''@'' (sub_unescaped CHR ''@'' B g ?E) = expand_markers R B (y # ys)" for g
      using "1.IH"(2) [of g] nesc R B by simp
    have E: "expand_hash R (x # y # ys) = (if x = CHR ''#'' then R else [x]) @ ?E"
      using nesc by auto
    have M: "expand_markers R B (x # y # ys) =
        (if x = CHR ''#'' then R else if x = CHR ''@'' then B else [x]) @ expand_markers R B (y # ys)"
      using nesc by auto
    consider (hash) "x = CHR ''#''" | (at) "x = CHR ''@''" | (bs) "x = backslash"
      | (lit) "x \<noteq> CHR ''#''" "x \<noteq> CHR ''@''" "x \<noteq> backslash" by blast
    then show ?thesis
    proof cases
      case hash
      with "1.prems" have "\<not> f" by simp
      have "sub_unescaped CHR ''@'' B f (R @ ?E) = R @ sub_unescaped CHR ''@'' B False ?E"
        using R \<open>\<not> f\<close> by (cases R rule: rev_cases) (auto simp: sub_unescaped_append sub_unescaped_absent)
      with hash E M IH [of False] R show ?thesis
        by (simp add: sub_escaped_prefix)
    next
      case at
      with "1.prems" have "\<not> f" by simp
      with at E M IH [of False] B show ?thesis
        by (simp add: sub_escaped_prefix)
    next
      case bs
      with nesc have y: "y \<noteq> CHR ''#''" "y \<noteq> CHR ''@''" by auto
      then have "?E \<noteq> [] \<and> hd ?E \<noteq> CHR ''@''"
        using hd_expand_hash [of "y # ys" R] by simp
      then have "sub_unescaped CHR ''@'' B True ?E \<noteq> [] \<and>
          hd (sub_unescaped CHR ''@'' B True ?E) \<noteq> CHR ''@''"
        using hd_sub_unescaped [of ?E "CHR ''@''" B True] by simp
      then have "sub_escaped CHR ''@'' (backslash # sub_unescaped CHR ''@'' B True ?E)
          = backslash # sub_escaped CHR ''@'' (sub_unescaped CHR ''@'' B True ?E)"
        by (simp add: sub_escaped_bs_Cons)
      with bs E M IH [of True] y show ?thesis by simp
    next
      case lit
      with E M IH [of False] show ?thesis by (simp add: sub_escaped_Cons)
    qed
  qed
next
  case (2 R B x)
  then show ?case 
    by (auto simp: sub_unescaped_absent sub_escaped_prefix [of _ _ "[]", simplified])
next
  case (3 R B)
  then show ?case by simp
qed

text \<open>
  Claim C5, as amended. When the compiled release path holds no \<open>@\<close> and no backslash
  and the binary root holds no backslash, \<open>Transform\<close> is the expansion in one pass:
  every marker that no backslash precedes is replaced (\<open>#\<close> by the compiled release path
  and a slash, \<open>@\<close> by the binary root), every backslash before a marker is dropped and
  its marker kept, and nothing else changes. In the code the expansion of a marker comes
  before the unescaping of the same marker, so no escaped marker is expanded.
\<close>

theorem Transform_expand:
  assumes "backslash \<notin> set (PathCompile bi None None)" "CHR ''@'' \<notin> set (PathCompile bi None None)"
    and "backslash \<notin> set (BinaryPath bi)"
  shows "Transform template s bi = Inr (expand_markers (PathCompile bi None None @ ''/'') (BinaryPath bi) s)"
proof -
  let ?R = "PathCompile bi None None @ ''/''"
  from assms have R: "backslash \<notin> set ?R" "CHR ''@'' \<notin> set ?R" by simp_all
  have "sub_escaped CHR ''#'' (sub_unescaped CHR ''#'' ?R False s) = expand_hash ?R s"
    using R(1) by (simp add: hash_passes)
  moreover have "sub_escaped CHR ''@'' (sub_unescaped CHR ''@'' (BinaryPath bi) False (expand_hash ?R s))
      = expand_markers ?R (BinaryPath bi) s"
    using R assms(3) by (simp add: at_passes)
  ultimately show ?thesis
    using R(1) assms(3) by (simp add: Transform_def re_repl_def Let_def)
qed

theorem Transform_expand_witness:
  "Transform no_templates (''#conf/a@b'' @ [backslash, CHR ''#'', backslash, CHR ''@''])
     \<lparr>ReleasePath = ''https://r/'', ActiveConfigPath = [''stable''], BinaryPath = ''https://bin/''\<rparr>
   = Inr ''https://r/stable/conf/ahttps://bin/b#@''"
proof -
  let ?bi = "\<lparr>ReleasePath = ''https://r/'', ActiveConfigPath = [''stable''], BinaryPath = ''https://bin/''\<rparr>"
  have p: "PathCompile ?bi None None = ''https://r/stable''"
    by (simp add: PathCompile_def rstrip_chr_def lstrip_chr_def strip_chr_def)
  have h: "backslash \<notin> set (PathCompile ?bi None None)" "CHR ''@'' \<notin> set (PathCompile ?bi None None)"
      "backslash \<notin> set (BinaryPath ?bi)"
    by (simp_all add: p)
  from Transform_expand [OF h, of no_templates "''#conf/a@b'' @ [backslash, CHR ''#'', backslash, CHR ''@'']"]
  show ?thesis by (simp add: p)
qed

text \<open>
  A release path with an \<open>@\<close> in it: the text that replaced \<open>#\<close> is expanded again by
  the substitution for \<open>@\<close>, so the template \<open>#\<close> does not become the compiled release
  path followed by a slash.
\<close>

theorem Transform_counterexample:
  "Transform no_templates ''#''
     \<lparr>ReleasePath = ''https://user@host'', ActiveConfigPath = [], BinaryPath = ''BIN''\<rparr>
   = Inr ''https://userBINhost/''
   \<and> PathCompile \<lparr>ReleasePath = ''https://user@host'', ActiveConfigPath = [], BinaryPath = ''BIN''\<rparr>
        None None @ ''/'' = ''https://user@host/''"
  by (simp add: Transform_def re_repl_def PathCompile_def rstrip_chr_def)

section \<open>The retry gate and the opening of a stream\<close>

text \<open>
  Claim C2, as amended. \<open>_AttemptResource\<close> raises exactly when the budget is not
  negative and the attempt number has reached it; the error is a \<open>DownloadError\<close> whose
  text names the resource and gives the budget \<open>max_retries\<close> as the number of attempts,
  whatever the attempt number is, and nothing else happens. In every other case it logs
  one line, sleeps the fixed 20 units and returns.
\<close>

theorem AttemptResource_gate:
  "(if 0 \<le> max_retries \<and> max_retries \<le> n
    then AttemptResource n max_retries resource s =
           (Inl (DownloadError (''Failed to reach '' @ resource @ '' after '' @ str_int max_retries
                   @ '' attempt(s).'')), s)
    else fst (AttemptResource n max_retries resource s) = Inr ()
         \<and> slept (snd (AttemptResource n max_retries resource s)) = slept s @ [20]
         \<and> (\<exists>line. events (snd (AttemptResource n max_retries resource s))
                      = events s @ [Log INFO line, Sleep 20]))"
  by (auto simp: AttemptResource_def slept_emit events_emit SLEEP_def)

text \<open>
  The second of five attempts and the ninth of an unlimited number sleep and return; the
  fifth of five raises.
\<close>

theorem AttemptResource_gate_witness:
  "fst (AttemptResource 2 5 ''file download'' fresh) = Inr ()
   \<and> slept (snd (AttemptResource 2 5 ''file download'' fresh)) = [20]
   \<and> fst (AttemptResource 9 (- 1) ''file download'' fresh) = Inr ()
   \<and> slept (snd (AttemptResource 9 (- 1) ''file download'' fresh)) = [20]
   \<and> AttemptResource 5 5 ''file download'' fresh =
       (Inl (DownloadError ''Failed to reach file download after 5 attempt(s).''), fresh)"
proof -
  have five: "str_int 5 = ''5''"
    by code_simp
  have quiet: "slept fresh = []"
    by (simp add: slept_def fresh_def)
  from AttemptResource_gate [of 5 2 "''file download''" fresh]
  have a: "fst (AttemptResource 2 5 ''file download'' fresh) = Inr ()"
      "slept (snd (AttemptResource 2 5 ''file download'' fresh)) = [20]"
    by (simp_all add: quiet)
  from AttemptResource_gate [of "- 1" 9 "''file download''" fresh]
  have b: "fst (AttemptResource 9 (- 1) ''file download'' fresh) = Inr ()"
      "slept (snd (AttemptResource 9 (- 1) ''file download'' fresh)) = [20]"
    by (simp_all add: quiet)
  from AttemptResource_gate [of 5 5 "''file download''" fresh]
  have c: "AttemptResource 5 5 ''file download'' fresh =
       (Inl (DownloadError ''Failed to reach file download after 5 attempt(s).''), fresh)"
    by (simp add: five)
  from a b c show ?thesis by simp
qed

text \<open>
  The number in the text is not the attempt number. With a budget of 0 the first failed
  cycle (attempt 1) raises with the text \<open>after 0 attempt(s)\<close>; with a budget of 3 the
  text reads \<open>after 3 attempt(s)\<close> at attempt 7 as it does at attempt 3.
\<close>

theorem AttemptResource_counterexample:
  "fst (AttemptResource 1 0 ''file download'' fresh)
     = Inl (DownloadError ''Failed to reach file download after 0 attempt(s).'')
   \<and> fst (AttemptResource 7 3 ''file download'' fresh)
     = Inl (DownloadError ''Failed to reach file download after 3 attempt(s).'')
   \<and> fst (AttemptResource 3 3 ''file download'' fresh)
     = Inl (DownloadError ''Failed to reach file download after 3 attempt(s).'')"
  by code_simp

text \<open>
  Claim C3. When the stripped URL parses to an empty host, \<open>_OpenStream\<close> raises
  \<open>DownloadError\<close> at once, whatever the retry budget: the state is the one it started
  from, so no call of \<open>urlopen\<close> was made, nothing was logged and nothing slept.
\<close>

theorem OpenStream_no_host:
  assumes "urlparse_netloc env (py_strip url) = Inr []"
  shows "OpenStream env url max_retries status_codes s =
           Some (Inl (DownloadError (''Invalid remote server URL \"'' @ py_strip url @ ''\".'')), s)"
  using assms by (simp add: OpenStream_def Let_def)

theorem OpenStream_no_host_witness:
  "urlparse_netloc (example_env 0 (served [1, 2, 3])) (py_strip '' relative/path.txt '') = Inr []
   \<and> OpenStream (example_env 0 (served [1, 2, 3])) '' relative/path.txt '' 5 None fresh =
       Some (Inl (DownloadError ''Invalid remote server URL \"relative/path.txt\".''), fresh)"
proof -
  have h: "urlparse_netloc (example_env 0 (served [1, 2, 3])) (py_strip '' relative/path.txt '') = Inr []"
    by (simp add: example_env_def example_netloc_def py_strip_def py_isspace_def)
  have "py_strip '' relative/path.txt '' = ''relative/path.txt''"
    by (simp add: py_strip_def py_isspace_def)
  with OpenStream_no_host [OF h, of 5 None fresh] h show ?thesis by simp
qed
lemma AttemptResource_pass:
  assumes "max_retries < 0 \<or> n < max_retries"
  shows "\<exists>s'. AttemptResource n max_retries resource s = (Inr (), s')
            \<and> slept s' = slept s @ [20] \<and> requested s' = requested s \<and> opened s' = opened s"
  using assms
  by (auto simp: AttemptResource_def slept_emit requested_emit opened_emit SLEEP_def)

lemma AttemptResource_fail:
  assumes "0 \<le> max_retries" "max_retries \<le> n"
  shows "AttemptResource n max_retries resource s =
           (Inl (DownloadError (''Failed to reach '' @ resource @ '' after '' @ str_int max_retries
                   @ '' attempt(s).'')), s)"
  using assms by (simp add: AttemptResource_def)

lemma try_urlopen_response:
  assumes "\<forall>u c. urlopen env (opened s) u c = Response r"
  shows "\<exists>s'. try_urlopen env url file_stream s = (Inr r, s')
            \<and> slept s' = slept s \<and> requested s' = requested s @ [url] \<and> opened s' = Suc (opened s)"
  using assms
  by (simp add: try_urlopen_def do_urlopen_def slept_def requested_def emit_def)

lemma OpenStream_loop_redirects:
  assumes "302 \<notin> set (acceptable sc)" "getcode ok \<in> set (acceptable sc)"
  shows "(\<forall>j < length rs. getcode (rs ! j) = 302
              \<and> (\<forall>u c. urlopen env (opened s + j) u c = Response (Some (rs ! j)))) \<Longrightarrow>
         (\<forall>u c. urlopen env (opened s + length rs) u c = Response (Some ok)) \<Longrightarrow>
         \<exists>s'. OpenStream_loop env mr sc a url fso s =
                 Some (if rs = [] \<or> mr < 0 \<or> a + int (length rs) < mr then Inr ok
                       else Inl (DownloadError (''Failed to reach file download after ''
                                   @ str_int mr @ '' attempt(s).'')), s')
             \<and> slept s' = slept s @ replicate
                   (if rs = [] \<or> mr < 0 \<or> a + int (length rs) < mr then length rs
                    else nat (mr - a - 1)) 20
             \<and> ((rs = [] \<or> mr < 0 \<or> a + int (length rs) < mr)
                  \<longrightarrow> requested s' = requested s @ url # map geturl rs)"
proof (induction rs arbitrary: a url fso s)
  case Nil
  then have "\<forall>u c. urlopen env (opened s) u c = Response (Some ok)" by simp
  from try_urlopen_response [OF this, of url fso]
  obtain s1 where s1: "try_urlopen env url fso s = (Inr (Some ok), s1)" "slept s1 = slept s"
      "requested s1 = requested s @ [url]" by blast
  have "check_stream sc url (Some ok) = Inl (Inr ok)"
    using assms(2) by (simp add: check_stream_def)
  with s1 show ?case
    by (subst OpenStream_loop.simps) simp
next
  case (Cons r rs)
  from Cons.prems(1) have r: "getcode r = 302" "\<forall>u c. urlopen env (opened s) u c = Response (Some r)"
    by force+
  from try_urlopen_response [OF r(2), of url fso]
  obtain s1 where s1: "try_urlopen env url fso s = (Inr (Some r), s1)" "slept s1 = slept s"
      "requested s1 = requested s @ [url]" "opened s1 = Suc (opened s)" by blast
  have chk: "check_stream sc url (Some r) = Inr (geturl r)"
    using assms(1) r(1) by (simp add: check_stream_def)
  show ?case
  proof (cases "mr < 0 \<or> a + 1 < mr")
    case True
    from AttemptResource_pass [OF this, of "''file download''" s1]
    obtain s2 where s2: "AttemptResource (a + 1) mr ''file download'' s1 = (Inr (), s2)"
        "slept s2 = slept s1 @ [20]" "requested s2 = requested s1" "opened s2 = opened s1" by blast
    have p1: "\<forall>j < length rs. getcode (rs ! j) = 302
              \<and> (\<forall>u c. urlopen env (opened s2 + j) u c = Response (Some (rs ! j)))"
    proof (intro allI impI)
      fix j assume "j < length rs"
      then have "Suc j < length (r # rs)" by simp
      with Cons.prems(1) have "getcode ((r # rs) ! Suc j) = 302
          \<and> (\<forall>u c. urlopen env (opened s + Suc j) u c = Response (Some ((r # rs) ! Suc j)))"
        by blast
      then show "getcode (rs ! j) = 302
          \<and> (\<forall>u c. urlopen env (opened s2 + j) u c = Response (Some (rs ! j)))"
        using s2(4) s1(4) by simp
    qed
    have p2: "\<forall>u c. urlopen env (opened s2 + length rs) u c = Response (Some ok)"
      using Cons.prems(2) s2(4) s1(4) by simp
    from Cons.IH [OF p1 p2, of "a + 1" "geturl r" "Some r"]
    obtain s' where s': "OpenStream_loop env mr sc (a + 1) (geturl r) (Some r) s2 =
                 Some (if rs = [] \<or> mr < 0 \<or> a + 1 + int (length rs) < mr then Inr ok
                       else Inl (DownloadError (''Failed to reach file download after ''
                                   @ str_int mr @ '' attempt(s).'')), s')"
      "slept s' = slept s2 @ replicate
                   (if rs = [] \<or> mr < 0 \<or> a + 1 + int (length rs) < mr then length rs
                    else nat (mr - (a + 1) - 1)) 20"
      "(rs = [] \<or> mr < 0 \<or> a + 1 + int (length rs) < mr)
                  \<longrightarrow> requested s' = requested s2 @ geturl r # map geturl rs"
      by blast
    have unfold: "OpenStream_loop env mr sc a url fso s =
        OpenStream_loop env mr sc (a + 1) (geturl r) (Some r) s2"
      using s1(1) chk s2(1) by (subst OpenStream_loop.simps) simp
    have cond: "(rs = [] \<or> mr < 0 \<or> a + 1 + int (length rs) < mr)
        = (mr < 0 \<or> a + int (length (r # rs)) < mr)"
      using True by auto
    have n: "\<not> (mr < 0 \<or> a + int (length (r # rs)) < mr) \<Longrightarrow>
        Suc (nat (mr - (a + 1) - 1)) = nat (mr - a - 1)"
      using True by auto
    show ?thesis
    proof (cases "mr < 0 \<or> a + int (length (r # rs)) < mr")
      case True
      with s' cond unfold s1 s2 show ?thesis
        by (intro exI [of _ s']) (auto simp: replicate_append_same)
    next
      case False
      with s' cond unfold s1 s2 n [OF False] show ?thesis
        by (intro exI [of _ s']) (simp add: replicate_append_same del: replicate_Suc flip: replicate_Suc)
    qed
  next
    case False
    then have f: "0 \<le> mr" "mr \<le> a + 1" by auto
    have "OpenStream_loop env mr sc a url fso s =
        Some (Inl (DownloadError (''Failed to reach file download after ''
                                   @ str_int mr @ '' attempt(s).'')), s1)"
      using s1(1) chk AttemptResource_fail [OF f, of "''file download''" s1]
      by (subst OpenStream_loop.simps) simp
    with f s1 show ?thesis by auto
  qed
qed

text \<open>
  Claim C1, as amended. A response with status 302 (when 302 is not acceptable) makes
  \<open>_OpenStream\<close> take the redirect target as the working URL and then pass through the
  retry gate like a cycle that failed: the redirect is counted and slept on. A network
  that answers with \<open>k\<close> redirects and then with an acceptable response gives that
  response exactly when \<open>k = 0\<close>, the budget is negative or \<open>k\<close> is below the budget,
  after \<open>k\<close> sleeps and requests for the URL and each redirect target in turn; otherwise
  the retry gate raises \<open>DownloadError\<close>. Three redirects followed by a 200 are returned
  only for a negative budget or one above three, and after three sleeps.
\<close>

theorem OpenStream_redirects_use_retry_budget:
  assumes host: "urlparse_netloc env (py_strip url) = Inr host" "host \<noteq> []"
    and codes: "302 \<notin> set (acceptable sc)" "getcode ok \<in> set (acceptable sc)"
    and redirects: "\<forall>j < length rs. getcode (rs ! j) = 302
              \<and> (\<forall>u c. urlopen env (opened s + j) u c = Response (Some (rs ! j)))"
    and final: "\<forall>u c. urlopen env (opened s + length rs) u c = Response (Some ok)"
  shows "\<exists>s'. OpenStream env url mr sc s =
                 Some (if rs = [] \<or> mr < 0 \<or> int (length rs) < mr then Inr ok
                       else Inl (DownloadError (''Failed to reach file download after ''
                                   @ str_int mr @ '' attempt(s).'')), s')
             \<and> slept s' = slept s @ replicate
                   (if rs = [] \<or> mr < 0 \<or> int (length rs) < mr then length rs
                    else nat (mr - 1)) 20
             \<and> ((rs = [] \<or> mr < 0 \<or> int (length rs) < mr)
                  \<longrightarrow> requested s' = requested s @ py_strip url # map geturl rs)"
proof -
  have "OpenStream env url mr sc s = OpenStream_loop env mr sc 0 (py_strip url) None s"
    using host by (simp add: OpenStream_def Let_def)
  moreover from OpenStream_loop_redirects [OF codes redirects final, of mr 0 "py_strip url" None]
  obtain s' where "OpenStream_loop env mr sc 0 (py_strip url) None s =
                 Some (if rs = [] \<or> mr < 0 \<or> 0 + int (length rs) < mr then Inr ok
                       else Inl (DownloadError (''Failed to reach file download after ''
                                   @ str_int mr @ '' attempt(s).'')), s')"
      "slept s' = slept s @ replicate
                   (if rs = [] \<or> mr < 0 \<or> 0 + int (length rs) < mr then length rs
                    else nat (mr - 0 - 1)) 20"
      "(rs = [] \<or> mr < 0 \<or> 0 + int (length rs) < mr)
                  \<longrightarrow> requested s' = requested s @ py_strip url # map geturl rs"
    by blast
  ultimately show ?thesis
    by (intro exI [of _ s']) auto
qed

theorem OpenStream_redirects_use_retry_budget_witness:
  "\<exists>s'. OpenStream (example_env 3 (served [1, 2, 3])) ''https://origin/f'' 5 None fresh
           = Some (Inr (served [1, 2, 3]), s')
       \<and> slept s' = [20, 20, 20]
       \<and> requested s' = [''https://origin/f'', ''https://mirror/f'', ''https://mirror/f'',
                          ''https://mirror/f'']"
proof -
  let ?env = "example_env 3 (served [1, 2, 3])"
  have strip: "py_strip ''https://origin/f'' = ''https://origin/f''"
    by (simp add: py_strip_def py_isspace_def)
  have host: "urlparse_netloc ?env (py_strip ''https://origin/f'') = Inr ''origin''" "''origin'' \<noteq> []"
    by (simp_all add: strip example_env_def example_netloc_def)
  have codes: "302 \<notin> set (acceptable None)" "getcode (served [1, 2, 3]) \<in> set (acceptable None)"
    by (simp_all add: acceptable_def served_def)
  have redirects: "\<forall>j < length [redirect, redirect, redirect].
      getcode ([redirect, redirect, redirect] ! j) = 302
      \<and> (\<forall>u c. urlopen ?env (opened fresh + j) u c
                  = Response (Some ([redirect, redirect, redirect] ! j)))"
    by (auto simp: less_Suc_eq numeral_3_eq_3 redirect_def example_env_def fresh_def)
  have final: "\<forall>u c. urlopen ?env (opened fresh + length [redirect, redirect, redirect]) u c
      = Response (Some (served [1, 2, 3]))"
    by (simp add: example_env_def)
  from OpenStream_redirects_use_retry_budget [OF host codes redirects final, of 5]
  show ?thesis
    by (simp add: strip numeral_3_eq_3 slept_def requested_def fresh_def redirect_def)
qed

theorem OpenStream_redirect_counterexample:
  "result_of (OpenStream (example_env 3 (served [1, 2, 3])) ''https://origin/f'' 3 None fresh)
     = Some (Inl (DownloadError ''Failed to reach file download after 3 attempt(s).''))
   \<and> result_of (OpenStream (example_env 3 (served [1, 2, 3])) ''https://origin/f'' 5 None fresh)
     = Some (Inr (served [1, 2, 3]))
   \<and> map_option slept
        (state_of (OpenStream (example_env 3 (served [1, 2, 3])) ''https://origin/f'' 5 None fresh))
     = Some [20, 20, 20]
   \<and> result_of (OpenStream (example_env 1 (served [1, 2, 3])) ''https://origin/f'' 0 None fresh)
     = Some (Inl (DownloadError ''Failed to reach file download after 0 attempt(s).''))"
  by code_simp


text \<open>
  The retry gate bounds the loop. With a budget that is not negative \<open>_OpenStream\<close>
  returns or raises, whatever the network answers, redirects included. With a negative
  budget a network that answers every call with the same redirect keeps the loop going
  for ever.
\<close>

lemma OpenStream_loop_returns:
  assumes "0 \<le> mr"
  shows "\<exists>r. OpenStream_loop env mr sc a url fso s = Some r"
  using assms
proof (induction "nat (mr - a)" arbitrary: a url fso s rule: less_induct)
  case less
  obtain t s1 where t: "try_urlopen env url fso s = (t, s1)"
    by (cases "try_urlopen env url fso s")
  show ?case
  proof (cases t)
    case (Inl e)
    with t show ?thesis by (subst OpenStream_loop.simps) simp
  next
    case (Inr fs1)
    note fs1 = this
    show ?thesis
    proof (cases "check_stream sc url fs1")
      case (Inl r)
      with t fs1 show ?thesis by (subst OpenStream_loop.simps) simp
    next
      case (Inr url1)
      obtain g s2 where g: "AttemptResource (a + 1) mr ''file download'' s1 = (g, s2)"
        by (cases "AttemptResource (a + 1) mr ''file download'' s1")
      show ?thesis
      proof (cases g)
        case (Inl e)
        with t fs1 Inr g show ?thesis by (subst OpenStream_loop.simps) simp
      next
        case (Inr u)
        with g less.prems have "a + 1 < mr"
          by (auto simp: AttemptResource_def split: if_splits)
        then have "nat (mr - (a + 1)) < nat (mr - a)" by simp
        from less.hyps [OF this less.prems, of url1 fs1 s2]
        obtain r where "OpenStream_loop env mr sc (a + 1) url1 fs1 s2 = Some r" by blast
        with t fs1 \<open>check_stream sc url fs1 = Inr url1\<close> g Inr show ?thesis
          by (subst OpenStream_loop.simps) simp
      qed
    qed
  qed
qed

lemma OpenStream_returns:
  "0 \<le> mr \<Longrightarrow> \<exists>r. OpenStream env url mr sc s = Some r"
  using OpenStream_loop_returns [of mr env sc 0 "py_strip url" None s]
  by (simp add: OpenStream_def Let_def split: sum.splits)

lemma OpenStream_loop_redirect_cycle:
  assumes "mr < 0" "302 \<notin> set (acceptable sc)" "getcode r = 302"
    and "\<forall>n u c. urlopen env n u c = Response (Some r)"
  shows "OpenStream_loop env mr sc a url fso s = None"
proof (rule ccontr)
  assume "OpenStream_loop env mr sc a url fso s \<noteq> None"
  then obtain res where ret: "OpenStream_loop env mr sc a url fso s = Some res" by blast
  have "\<not> (mr < 0 \<and> (\<forall>n u c. urlopen env n u c = Response (Some r)) \<and> 302 \<notin> set (acceptable sc))"
  proof (rule OpenStream_loop.raw_induct
      [where P = "\<lambda>env mr sc a url fso s res.
          \<not> (mr < 0 \<and> (\<forall>n u c. urlopen env n u c = Response (Some r)) \<and> 302 \<notin> set (acceptable sc))",
       OF _ ret])
    fix f env mr sc a url fso s res
    assume IH: "\<And>env mr sc a url fso s res. f env mr sc a url fso s = Some res \<Longrightarrow>
          \<not> (mr < 0 \<and> (\<forall>n u c. urlopen env n u c = Response (Some r)) \<and> 302 \<notin> set (acceptable sc))"
      and eq: "(let attempt = a + 1 in
      case try_urlopen env url fso s of
        (Inl e, s) \<Rightarrow> Some (Inl e, s)
      | (Inr file_stream, s) \<Rightarrow>
          (case check_stream sc url file_stream of
             Inl r \<Rightarrow> Some (r, s)
           | Inr url \<Rightarrow>
               (case AttemptResource attempt mr ''file download'' s of
                  (Inl e, s) \<Rightarrow> Some (Inl e, s)
                | (Inr u, s) \<Rightarrow> f env mr sc attempt url file_stream s))) = Some res"
    show "\<not> (mr < 0 \<and> (\<forall>n u c. urlopen env n u c = Response (Some r)) \<and> 302 \<notin> set (acceptable sc))"
    proof
      assume c: "mr < 0 \<and> (\<forall>n u c. urlopen env n u c = Response (Some r)) \<and> 302 \<notin> set (acceptable sc)"
      then obtain s1 where t: "try_urlopen env url fso s = (Inr (Some r), s1)"
        by (simp add: try_urlopen_def do_urlopen_def)
      from c assms(3) have chk: "check_stream sc url (Some r) = Inr (geturl r)"
        by (simp add: check_stream_def)
      from c obtain s2 where "AttemptResource (a + 1) mr ''file download'' s1 = (Inr (), s2)"
        by (auto simp: AttemptResource_def)
      with eq t chk have "f env mr sc (a + 1) (geturl r) (Some r) s2 = Some res" by simp
      from IH [OF this] c show False by simp
    qed
  qed
  with assms show False by simp
qed

section \<open>Writing to disk\<close>

lemma fold_headers:
  "fold (\<lambda>header d. d(fst header \<mapsto> snd header)) hs d k =
     (case map_of (rev hs) k of None \<Rightarrow> d k | Some v \<Rightarrow> Some v)"
  by (induction hs arbitrary: d) (auto split: option.splits)

lemma StoreDebugInfo_fields:
  "events (StoreDebugInfo env fso e s) = events s"
  "files (StoreDebugInfo env fso e s) = files s"
  "save_location (StoreDebugInfo env fso e s) = save_location s"
  "opened (StoreDebugInfo env fso e s) = opened s"
  by (simp_all add: StoreDebugInfo_def Let_def split: option.splits)

lemma StoreDebugInfo_time:
  "debug_info (StoreDebugInfo env fso e s) ''current_time'' = Some (strftime env)"
  by (simp add: StoreDebugInfo_def Let_def split: option.splits)

lemma StoreDebugInfo_headers:
  assumes "map_of (rev (headers fs)) k = Some v" "k \<noteq> ''current_time''"
  shows "debug_info (StoreDebugInfo env (Some fs) e s) k = Some v"
  using assms by (simp add: StoreDebugInfo_def Let_def fold_headers split: option.splits)

text \<open>
  Claim C4. With the destination set, \<open>_Validate\<close> passes exactly when the destination
  file exists and its size equals the declared length \<open>n\<close>; a larger file fails like a
  smaller one. When it passes nothing changes. When it fails the error is a
  \<open>DownloadError\<close>, and the state that comes with the error already has the debug
  information: the current time and every header of the response (for a header sent
  twice, the last value), with events and files untouched.
\<close>

theorem Validate_exact_size:
  assumes "save_location s = Some location"
  shows "((fst (Validate env fs n s) = Inr ())
            = (\<exists>content. files s location = Some content \<and> int (length content) = n))
       \<and> (fst (Validate env fs n s) = Inr () \<longrightarrow> snd (Validate env fs n s) = s)
       \<and> (fst (Validate env fs n s) \<noteq> Inr () \<longrightarrow>
            (\<exists>m. fst (Validate env fs n s) = Inl (DownloadError m))
            \<and> debug_info (snd (Validate env fs n s)) ''current_time'' = Some (strftime env)
            \<and> (\<forall>k v. map_of (rev (headers fs)) k = Some v \<and> k \<noteq> ''current_time''
                  \<longrightarrow> debug_info (snd (Validate env fs n s)) k = Some v)
            \<and> events (snd (Validate env fs n s)) = events s
            \<and> files (snd (Validate env fs n s)) = files s)"
proof (cases "files s location")
  case None
  with assms show ?thesis
    by (simp add: Validate_def StoreDebugInfo_fields StoreDebugInfo_time StoreDebugInfo_headers)
next
  case (Some content)
  with assms show ?thesis
    by (simp add: Validate_def Let_def StoreDebugInfo_fields StoreDebugInfo_time StoreDebugInfo_headers)
qed

theorem Validate_exact_size_witness:
  "Validate (example_env 0 (served [1, 2, 3])) (served [1, 2, 3]) 3 (on_disk [1, 2, 3])
     = (Inr (), on_disk [1, 2, 3])
   \<and> fst (Validate (example_env 0 (served [1, 2, 3])) (served [1, 2, 3]) 3 (on_disk [1, 2, 3, 4]))
     = Inl (DownloadError ''File size of 4 bytes did not match expected size of 3!'')
   \<and> debug_info (snd (Validate (example_env 0 (served [1, 2, 3])) (served [1, 2, 3]) 3
                        (on_disk [1, 2, 3, 4]))) ''Server'' = Some ''example''"
proof -
  let ?env = "example_env 0 (served [1, 2, 3])"
  have loc: "save_location (on_disk c) = Some ''C:/f''" for c
    by (simp add: on_disk_def)
  have f: "files (on_disk c) ''C:/f'' = Some c" for c
    by (simp add: on_disk_def)
  from Validate_exact_size [OF loc, of ?env "served [1, 2, 3]" 3 "[1, 2, 3]"]
  have "fst (Validate ?env (served [1, 2, 3]) 3 (on_disk [1, 2, 3])) = Inr ()"
    "snd (Validate ?env (served [1, 2, 3]) 3 (on_disk [1, 2, 3])) = on_disk [1, 2, 3]"
    by (simp_all add: f)
  then have a: "Validate ?env (served [1, 2, 3]) 3 (on_disk [1, 2, 3]) = (Inr (), on_disk [1, 2, 3])"
    by (simp add: prod_eq_iff)
  have b: "fst (Validate ?env (served [1, 2, 3]) 3 (on_disk [1, 2, 3, 4]))
     = Inl (DownloadError ''File size of 4 bytes did not match expected size of 3!'')"
    by code_simp
  from Validate_exact_size [OF loc, of ?env "served [1, 2, 3]" 3 "[1, 2, 3, 4]"] b
  have c: "debug_info (snd (Validate ?env (served [1, 2, 3]) 3 (on_disk [1, 2, 3, 4]))) ''Server''
      = Some ''example''"
    by (simp add: f served_def)
  from a b c show ?thesis by simp
qed

lemma DownloadChunkReport_ok:
  "t \<noteq> 0 \<Longrightarrow> fst (DownloadChunkReport b t s) = Inr ()
     \<and> files (snd (DownloadChunkReport b t s)) = files s
     \<and> save_location (snd (DownloadChunkReport b t s)) = save_location s"
  by (simp add: DownloadChunkReport_def Let_def files_emit save_location_emit)

lemma write_loop_delivers:
  assumes "\<not> progress \<or> t \<noteq> 0" "files s path = Some old"
  shows "(fst (write_loop progress t path i rs b s) = Inr ()) = undisturbed rs
       \<and> (\<not> undisturbed rs \<longrightarrow> (\<exists>e. fst (write_loop progress t path i rs b s) = Inl (OSError e)))
       \<and> files (snd (write_loop progress t path i rs b s)) = (files s)(path \<mapsto> old @ delivered rs)
       \<and> save_location (snd (write_loop progress t path i rs b s)) = save_location s"
  using assms
proof (induction progress t path i rs b s arbitrary: old rule: write_loop.induct)
  case (1 progress total_size path i bytes_so_far s)
  then show ?case by (auto simp: files_emit save_location_emit)
next
  case (2 progress total_size path i e rest bytes_so_far s)
  then show ?case by (auto simp: files_emit save_location_emit)
next
  case (3 progress total_size path i chunk rest bytes_so_far s)
  let ?s1 = "emit (StreamRead i) s"
  let ?b = "bytes_so_far + int (length chunk)"
  let ?s2 = "write_file path chunk ?s1"
  have f2: "files ?s2 = (files s)(path \<mapsto> old @ chunk)" "save_location ?s2 = save_location s"
    using "3.prems"(2) by (simp_all add: write_file_def files_emit save_location_emit)
  show ?case
  proof (cases "chunk = []")
    case True
    with "3.prems"(2) show ?thesis by (auto simp: files_emit save_location_emit)
  next
    case False
    note ne = this
    obtain s3 where s3: "files s3 = (files s)(path \<mapsto> old @ chunk)" "save_location s3 = save_location s"
      and step: "write_loop progress total_size path i (Chunk chunk # rest) bytes_so_far s
                 = write_loop progress total_size path i rest ?b s3"
      and IH: "\<And>old'. files s3 path = Some old' \<Longrightarrow>
          (fst (write_loop progress total_size path i rest ?b s3) = Inr ()) = undisturbed rest
          \<and> (\<not> undisturbed rest \<longrightarrow> (\<exists>e. fst (write_loop progress total_size path i rest ?b s3) = Inl (OSError e)))
          \<and> files (snd (write_loop progress total_size path i rest ?b s3)) = (files s3)(path \<mapsto> old' @ delivered rest)
          \<and> save_location (snd (write_loop progress total_size path i rest ?b s3)) = save_location s3"
    proof (cases progress)
      case False
      show ?thesis
      proof (rule that [of ?s2])
        show "files ?s2 = (files s)(path \<mapsto> old @ chunk)" "save_location ?s2 = save_location s"
          by (rule f2)+
        show "write_loop progress total_size path i (Chunk chunk # rest) bytes_so_far s
                 = write_loop progress total_size path i rest ?b ?s2"
          using ne False by (simp add: Let_def)
        fix old' assume "files ?s2 path = Some old'"
        from "3.IH"(2) [OF refl refl ne refl False _ this] False
        show "(fst (write_loop progress total_size path i rest ?b ?s2) = Inr ()) = undisturbed rest
          \<and> (\<not> undisturbed rest \<longrightarrow> (\<exists>e. fst (write_loop progress total_size path i rest ?b ?s2) = Inl (OSError e)))
          \<and> files (snd (write_loop progress total_size path i rest ?b ?s2)) = (files ?s2)(path \<mapsto> old' @ delivered rest)
          \<and> save_location (snd (write_loop progress total_size path i rest ?b ?s2)) = save_location ?s2"
          by (simp add: fun_upd_def)
      qed
    next
      case True
      with "3.prems" have t: "total_size \<noteq> 0" by simp
      obtain r3 s3 where r3: "DownloadChunkReport ?b total_size ?s2 = (r3, s3)"
        by (cases "DownloadChunkReport ?b total_size ?s2")
      with DownloadChunkReport_ok [OF t, of ?b ?s2]
      have ok: "r3 = Inr ()" "files s3 = files ?s2" "save_location s3 = save_location ?s2" by simp_all
      show ?thesis
      proof (rule that [of s3])
        show "files s3 = (files s)(path \<mapsto> old @ chunk)" "save_location s3 = save_location s"
          using ok f2 by simp_all
        show "write_loop progress total_size path i (Chunk chunk # rest) bytes_so_far s
                 = write_loop progress total_size path i rest ?b s3"
          using ne True r3 ok(1) by (simp add: Let_def)
        fix old' assume "files s3 path = Some old'"
        from "3.IH"(1) [OF refl refl ne refl True r3 [symmetric] ok(1) _ this] t
        show "(fst (write_loop progress total_size path i rest ?b s3) = Inr ()) = undisturbed rest
          \<and> (\<not> undisturbed rest \<longrightarrow> (\<exists>e. fst (write_loop progress total_size path i rest ?b s3) = Inl (OSError e)))
          \<and> files (snd (write_loop progress total_size path i rest ?b s3)) = (files s3)(path \<mapsto> old' @ delivered rest)
          \<and> save_location (snd (write_loop progress total_size path i rest ?b s3)) = save_location s3"
          by (simp add: fun_upd_def)
      qed
    qed
    from s3(1) have "files s3 path = Some (old @ chunk)" by simp
    from IH [OF this] s3 step ne show ?thesis by simp
  qed
qed


lemma size_loop_present:
  "read_size fs = Inr r \<Longrightarrow> size_loop max_retries a fs s = Some (Inr r, s)"
  by (subst size_loop.simps) simp

text \<open>
  The validation at the end of a whole streaming operation. When the declared length can
  be read, the destination opens and no read fails, \<open>_StreamToDisk\<close> leaves the bytes
  delivered in the destination file and succeeds exactly when their number is the
  declared length; one byte less, or one more, is a \<open>DownloadError\<close>.
\<close>

lemma StreamToDisk_checks_size:
  assumes size: "read_size fs = Inr (u, n)"
    and loc: "save_location s = Some location" "CHR 0x00 \<notin> set location"
      "open_wb env location = None"
    and reads: "undisturbed (body fs)"
    and prog: "\<not> (case show_progress of None \<Rightarrow> default_show_progress s | Some p \<Rightarrow> p) \<or> n \<noteq> 0"
  shows "\<exists>s'. StreamToDisk env fs show_progress max_retries s =
           Some (if int (length (delivered (body fs))) = n then Inr ()
                 else Inl (DownloadError (''File size of ''
                        @ str_int (int (length (delivered (body fs))))
                        @ '' bytes did not match expected size of '' @ str_int n @ ''!'')), s')
         \<and> files s' location = Some (delivered (body fs))"
proof -
  let ?p = "case show_progress of None \<Rightarrow> default_show_progress s | Some p \<Rightarrow> p"
  let ?s1 = "emit (Log INFO (''Downloading file \"'' @ geturl fs @ ''\" to \"'' @ location @ ''\".''))
               (s\<lparr>files := (files s)(location \<mapsto> [])\<rparr>)"
  let ?w = "write_loop ?p n location (sid fs) (body fs) 0 ?s1"
  have f1: "files ?s1 location = Some []" by (simp add: files_emit)
  from write_loop_delivers [OF prog f1, of "sid fs" "body fs" 0] reads
  have w: "fst ?w = Inr ()" "files (snd ?w) location = Some (delivered (body fs))"
      "save_location (snd ?w) = Some location"
    by (simp_all add: save_location_emit loc)
  have ws: "write_stream env ?p n fs s = ?w"
    using loc by (simp add: write_stream_def Let_def)
  obtain s2 where s2: "write_stream env ?p n fs s = (Inr (), s2)"
      "files s2 location = Some (delivered (body fs))" "save_location s2 = Some location"
    using w ws by (cases ?w) auto
  show ?thesis
  proof (cases "int (length (delivered (body fs))) = n")
    case True
    with s2 have "Validate env fs n s2 = (Inr (), s2)"
      by (simp add: Validate_def)
    with s2 size True show ?thesis
      by (intro exI [of _ "emit (StreamClose (sid fs)) s2"])
         (simp add: StreamToDisk_def size_loop_present files_emit)
  next
    case False
    with s2 have "Validate env fs n s2 =
        (Inl (DownloadError (''File size of '' @ str_int (int (length (delivered (body fs))))
                @ '' bytes did not match expected size of '' @ str_int n @ ''!'')),
         StoreDebugInfo env (Some fs) None s2)"
      by (simp add: Validate_def)
    with s2 size False show ?thesis
      by (intro exI [of _ "StoreDebugInfo env (Some fs) None s2"])
         (simp add: StreamToDisk_def size_loop_present StoreDebugInfo_fields)
  qed
qed

lemma on_stream_emit:
  "on_stream i (events (emit e s)) =
     on_stream i (events s) @ (if e = StreamRead i \<or> e = StreamClose i then [e] else [])"
  by (simp add: on_stream_def emit_def)

lemma AttemptResource_on_stream:
  "on_stream i (events (snd (AttemptResource n mr res s))) = on_stream i (events s)"
  by (simp add: AttemptResource_def on_stream_emit)

lemma size_loop_returns:
  assumes "0 \<le> mr \<or> read_size fs \<noteq> Inl AttributeError"
  shows "\<exists>r s'. size_loop mr a fs s = Some (r, s') \<and> on_stream i (events s') = on_stream i (events s)"
  using assms
proof (induction "nat (mr - a)" arbitrary: a s rule: less_induct)
  case less
  show ?case
  proof (cases "read_size fs")
    case (Inr r)
    then show ?thesis by (subst size_loop.simps) simp
  next
    case (Inl e)
    show ?thesis
    proof (cases "e = AttributeError")
      case False
      with Inl show ?thesis by (subst size_loop.simps) (cases e; simp)
    next
      case True
      with Inl less.prems have mr: "0 \<le> mr" by simp
      obtain r1 s1 where a1: "AttemptResource (a + 1) mr ''server URL'' s = (r1, s1)"
        by (cases "AttemptResource (a + 1) mr ''server URL'' s")
      with AttemptResource_on_stream [of i "a + 1" mr "''server URL''" s]
      have ev: "on_stream i (events s1) = on_stream i (events s)" by simp
      show ?thesis
      proof (cases r1)
        case (Inl e1)
        with a1 ev True \<open>read_size fs = Inl e\<close> show ?thesis
          by (subst size_loop.simps) simp
      next
        case (Inr u)
        with a1 mr have "a + 1 < mr"
          by (auto simp: AttemptResource_def split: if_splits)
        then have "nat (mr - (a + 1)) < nat (mr - a)" by simp
        from less.hyps [OF this, of s1] less.prems
        obtain r s' where "size_loop mr (a + 1) fs s1 = Some (r, s')"
            "on_stream i (events s') = on_stream i (events s1)" by blast
        with a1 ev True Inr \<open>read_size fs = Inl e\<close> show ?thesis
          by (subst size_loop.simps) simp
      qed
    qed
  qed
qed

lemma DownloadChunkReport_on_stream:
  "on_stream i (events (snd (DownloadChunkReport b t s))) = on_stream i (events s)"
  by (simp add: DownloadChunkReport_def Let_def on_stream_emit)

lemma write_file_events: "events (write_file p c s) = events s"
  by (simp add: write_file_def)

lemma write_loop_reads:
  "\<exists>n. on_stream i (events (snd (write_loop progress t path i rs b s)))
        = on_stream i (events s) @ replicate n (StreamRead i)"
proof (induction progress t path i rs b s rule: write_loop.induct)
  case (1 progress total_size path i bytes_so_far s)
  show ?case
    by (rule exI [of _ 1]) (simp add: on_stream_emit)
next
  case (2 progress total_size path i e rest bytes_so_far s)
  show ?case
    by (rule exI [of _ 1]) (simp add: on_stream_emit)
next
  case (3 progress total_size path i chunk rest bytes_so_far s)
  let ?s1 = "emit (StreamRead i) s"
  let ?b = "bytes_so_far + int (length chunk)"
  let ?s2 = "write_file path chunk ?s1"
  have s2: "on_stream i (events ?s2) = on_stream i (events s) @ [StreamRead i]"
    by (simp add: write_file_events on_stream_emit)
  show ?case
  proof (cases "chunk = []")
    case True
    then show ?thesis
      by (intro exI [of _ 1]) (simp add: on_stream_emit)
  next
    case False
    note ne = this
    show ?thesis
    proof (cases progress)
      case False
      from "3.IH"(2) [OF refl refl ne refl False]
      obtain n where "on_stream i (events (snd (write_loop progress total_size path i rest ?b ?s2)))
          = on_stream i (events ?s2) @ replicate n (StreamRead i)" by blast
      with s2 ne False show ?thesis
        by (intro exI [of _ "Suc n"]) (simp add: Let_def)
    next
      case True
      obtain r3 s3 where r3: "DownloadChunkReport ?b total_size ?s2 = (r3, s3)"
        by (cases "DownloadChunkReport ?b total_size ?s2")
      with DownloadChunkReport_on_stream [of i ?b total_size ?s2] s2
      have s3: "on_stream i (events s3) = on_stream i (events s) @ [StreamRead i]" by simp
      show ?thesis
      proof (cases r3)
        case (Inl e)
        with r3 s3 ne True show ?thesis
          by (intro exI [of _ 1]) (simp add: Let_def)
      next
        case (Inr u)
        from "3.IH"(1) [OF refl refl ne refl True r3 [symmetric] Inr]
        obtain n where "on_stream i (events (snd (write_loop progress total_size path i rest ?b s3)))
            = on_stream i (events s3) @ replicate n (StreamRead i)" by blast
        with r3 s3 ne True Inr show ?thesis
          by (intro exI [of _ "Suc n"]) (simp add: Let_def)
      qed
    qed
  qed
qed


lemma Validate_events: "events (snd (Validate env fs n s)) = events s"
  by (simp add: Validate_def Let_def StoreDebugInfo_fields split: option.splits)

lemma write_stream_reads:
  "\<exists>n. on_stream (sid fs) (events (snd (write_stream env progress t fs s)))
        = on_stream (sid fs) (events s) @ replicate n (StreamRead (sid fs))"
proof (cases "save_location s")
  case None
  then show ?thesis by (intro exI [of _ 0]) (simp add: write_stream_def)
next
  case (Some location)
  show ?thesis
  proof (cases "CHR 0x00 \<in> set location \<or> open_wb env location \<noteq> None")
    case True
    with \<open>save_location s = Some location\<close> show ?thesis
      by (intro exI [of _ 0]) (auto simp: write_stream_def)
  next
    case False
    then have None: "CHR 0x00 \<notin> set location" "open_wb env location = None" by auto
    let ?s1 = "emit (Log INFO (''Downloading file \"'' @ geturl fs @ ''\" to \"'' @ location @ ''\".''))
                 (s\<lparr>files := (files s)(location \<mapsto> [])\<rparr>)"
    have "on_stream (sid fs) (events ?s1) = on_stream (sid fs) (events s)"
      by (simp add: on_stream_emit)
    moreover from write_loop_reads [of "sid fs" progress t location "body fs" 0 ?s1]
    obtain n where "on_stream (sid fs) (events (snd (write_loop progress t location (sid fs) (body fs) 0 ?s1)))
        = on_stream (sid fs) (events ?s1) @ replicate n (StreamRead (sid fs))" by blast
    ultimately show ?thesis
      using None \<open>save_location s = Some location\<close>
      by (intro exI [of _ n]) (simp add: write_stream_def Let_def)
  qed
qed

text \<open>
  Claim C9, as amended. \<open>_StreamToDisk\<close> returns whenever its budget is not negative or
  the content length can be read, and what it does to the response is a run of reads
  followed, when it succeeds, by one close: no read comes after the close, the response is
  closed once on success, after the validation has passed, and it is not closed at all
  when \<open>_StreamToDisk\<close> fails, whether on the content length, a socket error, the opening
  of the destination or the validation of the size.
\<close>

theorem StreamToDisk_closes_on_success_only:
  assumes "0 \<le> max_retries \<or> read_size fs \<noteq> Inl AttributeError"
  shows "\<exists>r s' n. StreamToDisk env fs show_progress max_retries s = Some (r, s')
          \<and> on_stream (sid fs) (events s') =
              on_stream (sid fs) (events s) @ replicate n (StreamRead (sid fs))
              @ (if r = Inr () then [StreamClose (sid fs)] else [])"
proof -
  let ?i = "sid fs"
  let ?p = "case show_progress of None \<Rightarrow> default_show_progress s | Some p \<Rightarrow> p"
  from size_loop_returns [OF assms, of 0 s ?i]
  obtain r1 s1 where s1: "size_loop max_retries 0 fs s = Some (r1, s1)"
      "on_stream ?i (events s1) = on_stream ?i (events s)" by blast
  show ?thesis
  proof (cases r1)
    case (Inl e)
    with s1 show ?thesis
      by (intro exI [of _ "Inl e"] exI [of _ s1] exI [of _ 0]) (simp add: StreamToDisk_def)
  next
    case (Inr ut)
    obtain url t where ut: "ut = (url, t)" by (cases ut)
    obtain r2 s2 where s2: "write_stream env ?p t fs s1 = (r2, s2)"
      by (cases "write_stream env ?p t fs s1")
    from write_stream_reads [of fs env ?p t s1] s2 s1(2)
    obtain n where n: "on_stream ?i (events s2) = on_stream ?i (events s) @ replicate n (StreamRead ?i)"
      by auto
    show ?thesis
    proof (cases r2)
      case (Inl e)
      show ?thesis
      proof (cases e)
        case (OSError m)
        with Inl Inr ut s1 s2 n show ?thesis
          by (intro exI [of _ "Inl (DownloadError ''Socket error during download.'')"]
                exI [of _ "StoreDebugInfo env (Some fs) (Some m) s2"] exI [of _ n])
             (simp add: StreamToDisk_def StoreDebugInfo_fields)
      qed (use Inl Inr ut s1 s2 n in
             \<open>(intro exI [of _ "Inl e"] exI [of _ s2] exI [of _ n], simp add: StreamToDisk_def)\<close>)+
    next
      case (Inr u)
      note w = this
      obtain r3 s3 where s3: "Validate env fs t s2 = (r3, s3)"
        by (cases "Validate env fs t s2")
      with Validate_events [of env fs t s2] n
      have e3: "on_stream ?i (events s3) = on_stream ?i (events s) @ replicate n (StreamRead ?i)"
        by simp
      show ?thesis
      proof (cases r3)
        case (Inl e)
        with w \<open>r1 = Inr ut\<close> ut s1 s2 s3 e3 show ?thesis
          by (intro exI [of _ "Inl e"] exI [of _ s3] exI [of _ n]) (simp add: StreamToDisk_def)
      next
        case (Inr u')
        with w \<open>r1 = Inr ut\<close> ut s1 s2 s3 e3 show ?thesis
          by (intro exI [of _ "Inr ()"] exI [of _ "emit (StreamClose ?i) s3"] exI [of _ n])
             (simp add: StreamToDisk_def on_stream_emit)
      qed
    qed
  qed
qed

theorem StreamToDisk_closes_on_success_only_witness:
  "\<exists>s' n. StreamToDisk (example_env 0 (served [1, 2, 3])) (served [1, 2, 3]) None 5 awaiting
             = Some (Inr (), s')
         \<and> on_stream 1 (events s') = replicate n (StreamRead 1) @ [StreamClose 1]"
proof -
  let ?env = "example_env 0 (served [1, 2, 3])"
  have h: "0 \<le> (5 :: int) \<or> read_size (served [1, 2, 3]) \<noteq> Inl AttributeError" by simp
  from StreamToDisk_closes_on_success_only [OF h, of ?env None awaiting]
  obtain r s' n where r: "StreamToDisk ?env (served [1, 2, 3]) None 5 awaiting = Some (r, s')"
      "on_stream (sid (served [1, 2, 3])) (events s') =
         on_stream (sid (served [1, 2, 3])) (events awaiting)
         @ replicate n (StreamRead (sid (served [1, 2, 3])))
         @ (if r = Inr () then [StreamClose (sid (served [1, 2, 3]))] else [])"
    by blast
  have "result_of (StreamToDisk ?env (served [1, 2, 3]) None 5 awaiting) = Some (Inr ())"
    by code_simp
  with r(1) have "r = Inr ()" by (simp add: result_of_def)
  with r show ?thesis
    by (intro exI [of _ s'] exI [of _ n]) (simp add: served_def awaiting_def fresh_def on_stream_def)
qed

text \<open>
  A response that declares three bytes and delivers two: the validation fails, and the
  response has been read twice and never closed.
\<close>

theorem StreamToDisk_counterexample:
  "result_of (StreamToDisk (example_env 0 (served [1, 2])) (served [1, 2]) None 5 awaiting)
     = Some (Inl (DownloadError ''File size of 2 bytes did not match expected size of 3!''))
   \<and> map_option (on_stream 1 \<circ> events)
        (state_of (StreamToDisk (example_env 0 (served [1, 2])) (served [1, 2]) None 5 awaiting))
     = Some [StreamRead 1, StreamRead 1]"
  by code_simp

text \<open>
  With a negative budget and no content length to read, the first loop of
  \<open>_StreamToDisk\<close> never ends.
\<close>

lemma size_loop_never_returns:
  assumes "max_retries < 0" "read_size fs = Inl AttributeError"
  shows "size_loop max_retries a fs s = None"
proof (rule ccontr)
  assume "size_loop max_retries a fs s \<noteq> None"
  then obtain r where ret: "size_loop max_retries a fs s = Some r" by blast
  have "\<not> (max_retries < 0 \<and> read_size fs = Inl AttributeError)"
  proof (rule size_loop.raw_induct
      [where P = "\<lambda>mr a fs s r. \<not> (mr < 0 \<and> read_size fs = Inl AttributeError)", OF _ ret])
    fix f mr a fs s r
    assume IH: "\<And>mr a fs s r. f mr a fs s = Some r \<Longrightarrow> \<not> (mr < 0 \<and> read_size fs = Inl AttributeError)"
      and eq: "(let attempt = a + 1 in
           case read_size fs of
             Inl AttributeError \<Rightarrow>
               (case AttemptResource attempt mr ''server URL'' s of
                  (Inl e, s) \<Rightarrow> Some (Inl e, s)
                | (Inr u, s) \<Rightarrow> f mr attempt fs s)
           | Inl e \<Rightarrow> Some (Inl e, s)
           | Inr r \<Rightarrow> Some (Inr r, s)) = Some r"
    show "\<not> (mr < 0 \<and> read_size fs = Inl AttributeError)"
    proof
      assume c: "mr < 0 \<and> read_size fs = Inl AttributeError"
      then obtain s' where "AttemptResource (a + 1) mr ''server URL'' s = (Inr (), s')"
        by (auto simp: AttemptResource_def)
      with eq c have "f mr (a + 1) fs s' = Some r" by simp
      from IH [OF this] c show False by simp
    qed
  qed
  with assms show False by simp
qed

lemma StreamToDisk_never_returns:
  assumes "max_retries < 0" "read_size fs = Inl AttributeError"
  shows "StreamToDisk env fs show_progress max_retries s = None"
  using size_loop_never_returns [OF assms, of 0 s] by (simp add: StreamToDisk_def)

section \<open>Downloading a file\<close>

text \<open>
  Claim C10. \<open>DownloadFile\<close> decides on \<open>IsRemote\<close> alone. For every locator that is not
  remote it calls the copy collaborator once, with the locator and the destination, and
  turns a copy error into a \<open>DownloadError\<close>; it makes no call of \<open>urlopen\<close>. Nothing
  is asked of \<open>IsLocal\<close>: the example after the theorem is a relative path, which is
  neither remote nor local, and it is copied.
\<close>

theorem DownloadFile_not_remote_copies:
  assumes "\<not> IsRemote url"
  shows "\<exists>s'. DownloadFile env url location max_retries show_progress s =
             Some (case file_util_Copy env url location (files s) of
                     Inl e \<Rightarrow> Inl (DownloadError e)
                   | Inr fs \<Rightarrow> Inr (), s')
         \<and> events s' = events s @ [CopyFile url location]
         \<and> requested s' = requested s
         \<and> opened s' = opened s
         \<and> files s' = (case file_util_Copy env url location (files s) of
                          Inl e \<Rightarrow> files s
                        | Inr fs \<Rightarrow> fs)"
  using assms
  by (auto simp: DownloadFile_def Let_def events_emit requested_emit opened_emit files_emit
                 requested_def
           split: sum.splits)

theorem DownloadFile_not_remote_copies_witness:
  "\<not> IsRemote ''conf/build.yaml'' \<and> \<not> IsLocal ''conf/build.yaml''
   \<and> (\<exists>s'. DownloadFile (example_env 0 (served [1, 2, 3])) ''conf/build.yaml'' ''C:/build.yaml'' 5 None
               (fresh\<lparr>files := [''conf/build.yaml'' \<mapsto> [7, 8]]\<rparr>) = Some (Inr (), s')
          \<and> events s' = [CopyFile ''conf/build.yaml'' ''C:/build.yaml'']
          \<and> requested s' = []
          \<and> files s' ''C:/build.yaml'' = Some [7, 8])"
proof -
  have h: "\<not> IsRemote ''conf/build.yaml''"
    by (simp add: IsRemote_def lower_def lower_chr_def)
  have l: "\<not> IsLocal ''conf/build.yaml''"
    by simp
  let ?env = "example_env 0 (served [1, 2, 3])"
  let ?s = "fresh\<lparr>files := [''conf/build.yaml'' \<mapsto> [7, 8]]\<rparr>"
  have copy: "file_util_Copy ?env ''conf/build.yaml'' ''C:/build.yaml'' (files ?s)
      = Inr ([''conf/build.yaml'' \<mapsto> [7, 8], ''C:/build.yaml'' \<mapsto> [7, 8]])"
    by (simp add: example_env_def example_copy_def fresh_def)
  from DownloadFile_not_remote_copies [OF h, of ?env "''C:/build.yaml''" 5 None ?s]
  obtain s' where s': "DownloadFile ?env ''conf/build.yaml'' ''C:/build.yaml'' 5 None ?s =
             Some (case file_util_Copy ?env ''conf/build.yaml'' ''C:/build.yaml'' (files ?s) of
                     Inl e \<Rightarrow> Inl (DownloadError e)
                   | Inr fs \<Rightarrow> Inr (), s')"
      "events s' = events ?s @ [CopyFile ''conf/build.yaml'' ''C:/build.yaml'']"
      "requested s' = requested ?s"
      "files s' = (case file_util_Copy ?env ''conf/build.yaml'' ''C:/build.yaml'' (files ?s) of
                          Inl e \<Rightarrow> files ?s
                        | Inr fs \<Rightarrow> fs)"
    by blast
  have "DownloadFile ?env ''conf/build.yaml'' ''C:/build.yaml'' 5 None ?s = Some (Inr (), s')"
    using s'(1) copy by simp
  moreover have "events s' = [CopyFile ''conf/build.yaml'' ''C:/build.yaml'']"
    using s'(2) by (simp add: fresh_def)
  moreover have "requested s' = []"
    using s'(3) by (simp add: fresh_def requested_def)
  moreover have "files s' ''C:/build.yaml'' = Some [7, 8]"
    using s'(4) copy by simp
  ultimately show ?thesis using h l by blast
qed

text \<open>
  A failed request leaves the working URL and the absent stream as they were, and with a
  negative budget the retry gate lets every cycle through: a network that answers \<open>k\<close>
  calls with an HTTP error and the next with an acceptable response is asked \<open>k + 1\<close>
  times for the same URL, with \<open>k\<close> sleeps, and the response is returned.
\<close>

lemma AttemptResource_unlimited:
  assumes "max_retries < 0"
  shows "\<exists>s'. AttemptResource n max_retries resource s = (Inr (), s')
            \<and> slept s' = slept s @ [20] \<and> requested s' = requested s \<and> opened s' = opened s
            \<and> save_location s' = save_location s \<and> files s' = files s"
  using assms
  by (simp add: AttemptResource_def slept_emit requested_emit opened_emit save_location_emit
                files_emit SLEEP_def)

lemma try_urlopen_not_found:
  assumes "\<forall>u c. urlopen env (opened s) u c = HTTPError"
  shows "\<exists>s'. try_urlopen env url file_stream s = (Inr file_stream, s')
            \<and> slept s' = slept s \<and> requested s' = requested s @ [url] \<and> opened s' = Suc (opened s)
            \<and> save_location s' = save_location s \<and> files s' = files s"
  using assms
  by (simp add: try_urlopen_def do_urlopen_def slept_def requested_def emit_def)

lemma try_urlopen_found:
  assumes "\<forall>u c. urlopen env (opened s) u c = Response r"
  shows "\<exists>s'. try_urlopen env url file_stream s = (Inr r, s')
            \<and> slept s' = slept s \<and> requested s' = requested s @ [url]
            \<and> save_location s' = save_location s \<and> files s' = files s"
  using assms
  by (simp add: try_urlopen_def do_urlopen_def slept_def requested_def emit_def)

lemma OpenStream_loop_unlimited:
  assumes "mr < 0" "getcode ok \<in> set (acceptable sc)"
  shows "(\<forall>j < k. \<forall>u c. urlopen env (opened s + j) u c = HTTPError) \<Longrightarrow>
         (\<forall>u c. urlopen env (opened s + k) u c = Response (Some ok)) \<Longrightarrow>
         \<exists>s'. OpenStream_loop env mr sc a url None s = Some (Inr ok, s')
             \<and> slept s' = slept s @ replicate k 20
             \<and> requested s' = requested s @ replicate (Suc k) url
             \<and> save_location s' = save_location s \<and> files s' = files s"
proof (induction k arbitrary: a s)
  case 0
  then have "\<forall>u c. urlopen env (opened s) u c = Response (Some ok)" by simp
  from try_urlopen_found [OF this, of url None]
  obtain s1 where s1: "try_urlopen env url None s = (Inr (Some ok), s1)" "slept s1 = slept s"
      "requested s1 = requested s @ [url]" "save_location s1 = save_location s" "files s1 = files s"
    by blast
  have "check_stream sc url (Some ok) = Inl (Inr ok)"
    using assms(2) by (simp add: check_stream_def)
  with s1 show ?case
    by (subst OpenStream_loop.simps) simp
next
  case (Suc k)
  from Suc.prems(1) have "\<forall>u c. urlopen env (opened s) u c = HTTPError"
    by force
  from try_urlopen_not_found [OF this, of url None]
  obtain s1 where s1: "try_urlopen env url None s = (Inr None, s1)" "slept s1 = slept s"
      "requested s1 = requested s @ [url]" "opened s1 = Suc (opened s)"
      "save_location s1 = save_location s" "files s1 = files s"
    by blast
  have chk: "check_stream sc url None = Inr url"
    by (simp add: check_stream_def)
  from AttemptResource_unlimited [OF assms(1), of "a + 1" "''file download''" s1]
  obtain s2 where s2: "AttemptResource (a + 1) mr ''file download'' s1 = (Inr (), s2)"
      "slept s2 = slept s1 @ [20]" "requested s2 = requested s1" "opened s2 = opened s1"
      "save_location s2 = save_location s1" "files s2 = files s1"
    by blast
  have p1: "\<forall>j < k. \<forall>u c. urlopen env (opened s2 + j) u c = HTTPError"
  proof (intro allI impI)
    fix j u c assume "j < k"
    then have "Suc j < Suc k" by simp
    with Suc.prems(1) have "urlopen env (opened s + Suc j) u c = HTTPError" by blast
    then show "urlopen env (opened s2 + j) u c = HTTPError"
      using s2(4) s1(4) by simp
  qed
  have p2: "\<forall>u c. urlopen env (opened s2 + k) u c = Response (Some ok)"
    using Suc.prems(2) s2(4) s1(4) by simp
  from Suc.IH [OF p1 p2, of "a + 1"]
  obtain s' where s': "OpenStream_loop env mr sc (a + 1) url None s2 = Some (Inr ok, s')"
      "slept s' = slept s2 @ replicate k 20"
      "requested s' = requested s2 @ replicate (Suc k) url"
      "save_location s' = save_location s2" "files s' = files s2"
    by blast
  have unfold: "OpenStream_loop env mr sc a url None s =
      OpenStream_loop env mr sc (a + 1) url None s2"
    using s1(1) chk s2(1) by (subst OpenStream_loop.simps) simp
  from s' unfold s1 s2 show ?case
    by (intro exI [of _ s']) (simp add: replicate_append_same)
qed

text \<open>
  Claim C8, as amended. For a remote locator with the access-control collaborator enabled,
  \<open>_OpenStream\<close> is called with the budget -1 whatever budget the caller gave, so the
  retries are unlimited: when the network answers any number \<open>k\<close> of calls with an HTTP
  error and the next with a 200 response, that response is the one written to disk, after
  \<open>k\<close> sleeps and \<open>k + 1\<close> requests. The URL is replaced only when the flag
  \<open>use_signed_url\<close> is set: then the collaborator signs the URL without the prefix
  \<open>config_server/\<close> (the whole URL when it does not start with it), the signed URL is
  the one requested, and a signing failure is a \<open>DownloadError\<close> raised before anything
  is opened. With the flag off the URL stays as it is.
\<close>

theorem DownloadFile_beyondcorp:
  assumes remote: "IsRemote url" and enabled: "CheckBeyondCorp env"
  shows "DownloadFile env url location max_retries show_progress s =
     (let s0 = s\<lparr>save_location := Some location\<rparr>;
          suffix = drop (if startswith url (config_server env @ ''/'')
                         then length (config_server env @ ''/'') else 0) url;
          download = (\<lambda>target s1.
             case OpenStream env target (- 1) None s1 of
               None \<Rightarrow> None
             | Some (Inl e, s2) \<Rightarrow> Some (Inl e, s2)
             | Some (Inr file_stream, s2) \<Rightarrow> StreamToDisk env file_stream show_progress 5 s2)
      in if use_signed_url env then
           (case GetSignedUrl env suffix of
              Inl e \<Rightarrow> Some (Inl (DownloadError e), emit (SignUrl suffix) s0)
            | Inr signed_url \<Rightarrow> download signed_url (emit (SignUrl suffix) s0))
         else download url s0)
    \<and> DownloadFile env url location max_retries show_progress s
        = DownloadFile env url location another_budget show_progress s
    \<and> ((if use_signed_url env
           then GetSignedUrl env (drop (if startswith url (config_server env @ ''/'')
                                        then length (config_server env @ ''/'') else 0) url)
                  = Inr target
           else target = url) \<longrightarrow>
          urlparse_netloc env (py_strip target) = Inr host \<longrightarrow> host \<noteq> [] \<longrightarrow>
          (\<forall>j < k. \<forall>u c. urlopen env (opened s + j) u c = HTTPError) \<longrightarrow>
          (\<forall>u c. urlopen env (opened s + k) u c = Response (Some ok)) \<longrightarrow> getcode ok = 200 \<longrightarrow>
          (\<exists>s'. DownloadFile env url location max_retries show_progress s
                   = StreamToDisk env ok show_progress 5 s'
               \<and> slept s' = slept s @ replicate k 20
               \<and> requested s' = requested s @ replicate (Suc k) (py_strip target)
               \<and> save_location s' = Some location
               \<and> files s' = files s))"
proof -
  let ?s0 = "s\<lparr>save_location := Some location\<rparr>"
  let ?suffix = "drop (if startswith url (config_server env @ ''/'')
                       then length (config_server env @ ''/'') else 0) url"
  let ?download = "\<lambda>target s1.
             case OpenStream env target (- 1) None s1 of
               None \<Rightarrow> None
             | Some (Inl e, s2) \<Rightarrow> Some (Inl e, s2)
             | Some (Inr file_stream, s2) \<Rightarrow> StreamToDisk env file_stream show_progress 5 s2"
  have eq: "DownloadFile env url location b show_progress s =
     (if use_signed_url env then
           (case GetSignedUrl env ?suffix of
              Inl e \<Rightarrow> Some (Inl (DownloadError e), emit (SignUrl ?suffix) ?s0)
            | Inr signed_url \<Rightarrow> ?download signed_url (emit (SignUrl ?suffix) ?s0))
         else ?download url ?s0)" for b
    using assms
    by (simp add: DownloadFile_def SetUrl_def open_and_write_def Let_def split: sum.splits)
  have same: "DownloadFile env url location max_retries show_progress s
        = DownloadFile env url location another_budget show_progress s"
    by (simp only: eq)
  have retries: "\<exists>s'. DownloadFile env url location max_retries show_progress s
                   = StreamToDisk env ok show_progress 5 s'
               \<and> slept s' = slept s @ replicate k 20
               \<and> requested s' = requested s @ replicate (Suc k) (py_strip target)
               \<and> save_location s' = Some location
               \<and> files s' = files s"
    if target: "if use_signed_url env then GetSignedUrl env ?suffix = Inr target else target = url"
      and host: "urlparse_netloc env (py_strip target) = Inr host" "host \<noteq> []"
      and failures: "\<forall>j < k. \<forall>u c. urlopen env (opened s + j) u c = HTTPError"
      and final: "\<forall>u c. urlopen env (opened s + k) u c = Response (Some ok)"
      and code: "getcode ok = 200"
    for target host k ok
  proof -
    define s1 where "s1 = (if use_signed_url env then emit (SignUrl ?suffix) ?s0 else ?s0)"
    have s1: "slept s1 = slept s" "requested s1 = requested s" "opened s1 = opened s"
        "save_location s1 = Some location" "files s1 = files s"
      by (simp_all add: s1_def emit_def slept_def requested_def)
    have d: "DownloadFile env url location max_retries show_progress s = ?download target s1"
      using target by (simp add: eq s1_def split: if_splits)
    have ok: "getcode ok \<in> set (acceptable None)"
      using code by (simp add: acceptable_def)
    have f1: "\<forall>j < k. \<forall>u c. urlopen env (opened s1 + j) u c = HTTPError"
      using failures s1(3) by simp
    have f2: "\<forall>u c. urlopen env (opened s1 + k) u c = Response (Some ok)"
      using final s1(3) by simp
    have neg: "(- 1 :: int) < 0" by simp
    from OpenStream_loop_unlimited [OF neg ok f1 f2, of 0 "py_strip target"]
    obtain s' where s': "OpenStream_loop env (- 1) None 0 (py_strip target) None s1 = Some (Inr ok, s')"
        "slept s' = slept s1 @ replicate k 20"
        "requested s' = requested s1 @ replicate (Suc k) (py_strip target)"
        "save_location s' = save_location s1" "files s' = files s1"
      by blast
    have "OpenStream env target (- 1) None s1 = Some (Inr ok, s')"
      using host s'(1) by (simp add: OpenStream_def Let_def)
    with d have "DownloadFile env url location max_retries show_progress s
        = StreamToDisk env ok show_progress 5 s'"
      by simp
    with s' s1 show ?thesis
      by (intro exI [of _ s']) simp
  qed
  from eq [of max_retries] same retries [of target host k ok] show ?thesis
    by (simp only: Let_def) blast
qed

text \<open>
  The caller allows five attempts and the network fails seven times: with the
  collaborator enabled and the flag set, the signed URL of the path behind the server
  prefix is requested eight times, with seven sleeps, and the download succeeds. When
  the collaborator refuses to sign, the \<open>DownloadError\<close> carries its text and nothing is
  requested.
\<close>

theorem DownloadFile_beyondcorp_witness:
  "(\<exists>s'. DownloadFile (failing_env 7 True) ''https://config/f'' ''C:/f'' 5 None fresh
            = StreamToDisk (failing_env 7 True) (served [1, 2, 3]) None 5 s'
        \<and> slept s' = [20, 20, 20, 20, 20, 20, 20]
        \<and> requested s' = replicate 8 ''https://signed/f'')
   \<and> result_of (DownloadFile (failing_env 7 True) ''https://config/f'' ''C:/f'' 5 None fresh)
     = Some (Inr ())
   \<and> map_option slept
        (state_of (DownloadFile (failing_env 7 True) ''https://config/f'' ''C:/f'' 5 None fresh))
     = Some [20, 20, 20, 20, 20, 20, 20]
   \<and> map_option requested
        (state_of (DownloadFile (failing_env 7 True) ''https://config/f'' ''C:/f'' 5 None fresh))
     = Some (replicate 8 ''https://signed/f'')
   \<and> result_of (DownloadFile refusing_env ''https://config/f'' ''C:/f'' 5 None fresh)
     = Some (Inl (DownloadError ''no signature''))
   \<and> map_option requested
        (state_of (DownloadFile refusing_env ''https://config/f'' ''C:/f'' 5 None fresh))
     = Some []"
proof -
  let ?env = "failing_env 7 True"
  have h: "IsRemote ''https://config/f''" "CheckBeyondCorp ?env"
    by (simp_all add: IsRemote_def lower_def lower_chr_def failing_env_def signing_env_def
                      example_env_def)
  have strip: "py_strip ''https://signed/f'' = ''https://signed/f''"
    by (simp add: py_strip_def py_isspace_def)
  have target: "if use_signed_url ?env
      then GetSignedUrl ?env (drop (if startswith ''https://config/f'' (config_server ?env @ ''/'')
                                   then length (config_server ?env @ ''/'') else 0)
                               ''https://config/f'') = Inr ''https://signed/f''
      else ''https://signed/f'' = ''https://config/f''"
    by (simp add: failing_env_def signing_env_def example_env_def startswith_def)
  have host: "urlparse_netloc ?env (py_strip ''https://signed/f'') = Inr ''signed''" "''signed'' \<noteq> []"
    by (simp_all add: strip failing_env_def signing_env_def example_env_def example_netloc_def)
  have failures: "\<forall>j < 7. \<forall>u c. urlopen ?env (opened fresh + j) u c = HTTPError"
    by (simp add: failing_env_def fresh_def)
  have final: "\<forall>u c. urlopen ?env (opened fresh + 7) u c = Response (Some (served [1, 2, 3]))"
    by (simp add: failing_env_def fresh_def)
  have code: "getcode (served [1, 2, 3]) = 200"
    by (simp add: served_def)
  from DownloadFile_beyondcorp [OF h, of "''C:/f''" 5 None fresh _ "''https://signed/f''"
      "''signed''" 7 "served [1, 2, 3]"] target host failures final code
  obtain s' where "DownloadFile ?env ''https://config/f'' ''C:/f'' 5 None fresh
                   = StreamToDisk ?env (served [1, 2, 3]) None 5 s'"
      "slept s' = slept fresh @ replicate 7 20"
      "requested s' = requested fresh @ replicate (Suc 7) (py_strip ''https://signed/f'')"
    by blast
  then have first: "\<exists>s'. DownloadFile ?env ''https://config/f'' ''C:/f'' 5 None fresh
            = StreamToDisk ?env (served [1, 2, 3]) None 5 s'
        \<and> slept s' = [20, 20, 20, 20, 20, 20, 20]
        \<and> requested s' = replicate 8 ''https://signed/f''"
    by (intro exI [of _ s']) (simp add: strip slept_def requested_def fresh_def numeral_eq_Suc)
  have run: "result_of (DownloadFile ?env ''https://config/f'' ''C:/f'' 5 None fresh) = Some (Inr ())"
    "map_option slept (state_of (DownloadFile ?env ''https://config/f'' ''C:/f'' 5 None fresh))
       = Some [20, 20, 20, 20, 20, 20, 20]"
    "map_option requested (state_of (DownloadFile ?env ''https://config/f'' ''C:/f'' 5 None fresh))
       = Some (replicate 8 ''https://signed/f'')"
    "result_of (DownloadFile refusing_env ''https://config/f'' ''C:/f'' 5 None fresh)
       = Some (Inl (DownloadError ''no signature''))"
    "map_option requested
        (state_of (DownloadFile refusing_env ''https://config/f'' ''C:/f'' 5 None fresh))
       = Some []"
    by code_simp+
  from first run show ?thesis by blast
qed

text \<open>
  The collaborator is enabled and would sign, but the flag is off: the URL requested is
  the original one.
\<close>

theorem DownloadFile_beyondcorp_counterexample:
  "CheckBeyondCorp (signing_env False) \<and> IsRemote ''https://config/f''
   \<and> GetSignedUrl (signing_env False) ''f'' = Inr ''https://signed/f''
   \<and> result_of (DownloadFile (signing_env False) ''https://config/f'' ''C:/f'' 5 None fresh)
      = Some (Inr ())
   \<and> map_option requested
        (state_of (DownloadFile (signing_env False) ''https://config/f'' ''C:/f'' 5 None fresh))
      = Some [''https://config/f'']"
  by code_simp

section \<open>Verifying a hash\<close>

lemma lower_hex_digit: "d < 16 \<Longrightarrow> lower_chr (hex_digit d) = hex_digit d"
  by (simp add: lower_chr_def hex_digit_def Let_def)

lemma byte_high_nibble: "unat (b :: 8 word) div 16 < 16"
proof -
  have "unat b < 2 ^ LENGTH(8)" by (rule unsigned_less)
  then show ?thesis by simp
qed

lemma lower_hexdigest: "lower (hexdigest d) = hexdigest d"
  by (induction d) (simp_all add: lower_def hexdigest_def lower_hex_digit byte_high_nibble)

lemma update_loop_all: "0 < n \<Longrightarrow> update_loop n rest fed = fed @ rest"
proof (induction n rest fed rule: update_loop.induct)
  case (1 n rest fed)
  show ?case
  proof (cases "take n rest = []")
    case True
    with 1(2) have "rest = []" by (cases rest) auto
    with True show ?thesis by (subst update_loop.simps) simp
  next
    case False
    with 1 have "update_loop n (drop n rest) (fed @ take n rest) = (fed @ take n rest) @ drop n rest"
      by simp
    with False show ?thesis by (subst update_loop.simps) (simp add: Let_def)
  qed
qed

text \<open>
  The hexadecimal digest has two characters for every byte, all of them digits or lower
  case letters from \<open>a\<close> to \<open>f\<close>.
\<close>

lemma length_hexdigest: "length (hexdigest d) = 2 * length d"
  by (induction d) (simp_all add: hexdigest_def)

lemma hex_digit_chars: "d < 16 \<Longrightarrow> hex_digit d \<in> set ''0123456789abcdef''"
proof -
  have "\<forall>d \<in> set [0..<16]. hex_digit d \<in> set ''0123456789abcdef''"
    by code_simp
  moreover assume "d < 16"
  ultimately show ?thesis by simp
qed

lemma hexdigest_chars:
  assumes "c \<in> set (hexdigest d)"
  shows "c \<in> set ''0123456789abcdef''"
proof -
  from assms obtain b :: "8 word"
    where "c = hex_digit (unat b div 16) \<or> c = hex_digit (unat b mod 16)"
    by (auto simp: hexdigest_def)
  moreover have "unat b mod 16 < 16" by simp
  ultimately show ?thesis
    using hex_digit_chars [of "unat b div 16"] hex_digit_chars [of "unat b mod 16"]
      byte_high_nibble [of b]
    by blast
qed

text \<open>
  Claim C7. For a path without a NUL character \<open>VerifyShaHash\<close> returns a truth value:
  true exactly when the file can be read and the hexadecimal digest of its whole content
  equals the expected text with letter case ignored, false when the file cannot be read.
  For a path with a NUL character \<open>open\<close> raises \<open>ValueError\<close>, which \<open>except IOError\<close>
  does not take: the method raises it, with nothing logged, although its documentation
  promises \<open>False\<close> for an error reading the file.
\<close>

theorem VerifyShaHash_result:
  "(if CHR 0x00 \<in> set file_path
    then VerifyShaHash env file_path expected s = (Inl (ValueError ''embedded null byte''), s)
    else fst (VerifyShaHash env file_path expected s) =
           Inr (case files s file_path of
                  None \<Rightarrow> False
                | Some content \<Rightarrow> lower (hexdigest (sha256 env content)) = lower expected))"
  by (simp add: VerifyShaHash_def open_rb_def update_loop_all lower_hexdigest Let_def
           split: option.splits)

text \<open>
  The path \<open>C:/f\<close> followed by a NUL character raises. A file whose digest is the bytes
  AB 0C matches the expected texts \<open>AB0C\<close> and \<open>ab0c\<close> and does not match \<open>ab0d\<close>; a
  path that names no file gives false.
\<close>

theorem VerifyShaHash_result_witness:
  "VerifyShaHash (example_env 0 (served [1, 2, 3])) (''C:/f'' @ [CHR 0x00]) ''ab'' fresh
     = (Inl (ValueError ''embedded null byte''), fresh)
   \<and> fst (VerifyShaHash (example_env 0 (served [1, 2, 3])) ''C:/f'' ''AB0C'' (on_disk [0xAB, 0x0C]))
     = Inr True
   \<and> fst (VerifyShaHash (example_env 0 (served [1, 2, 3])) ''C:/f'' ''ab0c'' (on_disk [0xAB, 0x0C]))
     = Inr True
   \<and> fst (VerifyShaHash (example_env 0 (served [1, 2, 3])) ''C:/f'' ''ab0d'' (on_disk [0xAB, 0x0C]))
     = Inr False
   \<and> fst (VerifyShaHash (example_env 0 (served [1, 2, 3])) ''C:/g'' ''ab0c'' (on_disk [0xAB, 0x0C]))
     = Inr False"
proof -
  let ?env = "example_env 0 (served [1, 2, 3])"
  have hex: "lower (hexdigest (sha256 ?env [0xAB, 0x0C])) = ''ab0c''"
    by code_simp
  have low: "lower ''AB0C'' = ''ab0c''" "lower ''ab0c'' = ''ab0c''" "lower ''ab0d'' = ''ab0d''"
    by code_simp+
  have a: "VerifyShaHash ?env (''C:/f'' @ [CHR 0x00]) ''ab'' fresh
     = (Inl (ValueError ''embedded null byte''), fresh)"
    using VerifyShaHash_result [of "''C:/f'' @ [CHR 0x00]" ?env "''ab''" fresh] by simp
  have b: "fst (VerifyShaHash ?env ''C:/f'' ''AB0C'' (on_disk [0xAB, 0x0C])) = Inr True"
    using VerifyShaHash_result [of "''C:/f''" ?env "''AB0C''" "on_disk [0xAB, 0x0C]"] hex low
    by (simp add: on_disk_def)
  have c: "fst (VerifyShaHash ?env ''C:/f'' ''ab0c'' (on_disk [0xAB, 0x0C])) = Inr True"
    using VerifyShaHash_result [of "''C:/f''" ?env "''ab0c''" "on_disk [0xAB, 0x0C]"] hex low
    by (simp add: on_disk_def)
  have d: "fst (VerifyShaHash ?env ''C:/f'' ''ab0d'' (on_disk [0xAB, 0x0C])) = Inr False"
    using VerifyShaHash_result [of "''C:/f''" ?env "''ab0d''" "on_disk [0xAB, 0x0C]"] hex low
    by (simp add: on_disk_def)
  have e: "fst (VerifyShaHash ?env ''C:/g'' ''ab0c'' (on_disk [0xAB, 0x0C])) = Inr False"
    using VerifyShaHash_result [of "''C:/g''" ?env "''ab0c''" "on_disk [0xAB, 0x0C]"]
    by (simp add: on_disk_def)
  from a b c d e show ?thesis by simp
qed

end
